theory Spec2Isabelle
  imports Main "HOL-Library.Sublist" "HOL-Library.Multiset"
begin

section \<open>Data model of the broadcast module\<close>

text \<open>
  The embedding follows \<^verbatim>\<open>apps/api/src/modules/broadcasts/broadcasts.service.ts\<close>
  (class \<^verbatim>\<open>BroadcastsService\<close>) and the processor that follows it in the same file
  (class \<^verbatim>\<open>BroadcastProcessor\<close>). Database tables are lists of rows in insertion
  order. Identifiers are strings, JavaScript numbers (counts, sizes, amounts, times in
  milliseconds) are \<^typ>\<open>int\<close>, optional fields are \<^typ>\<open>'a option\<close>. Columns that
  are only copied from the request to the row and never read again (\<^verbatim>\<open>nameAr\<close>,
  \<^verbatim>\<open>description\<close>, \<^verbatim>\<open>contentAr\<close>) and the wall-clock columns written with
  \<^verbatim>\<open>new Date()\<close> (\<^verbatim>\<open>startedAt\<close>, \<^verbatim>\<open>pausedAt\<close>, \<^verbatim>\<open>completedAt\<close>,
  \<^verbatim>\<open>cancelledAt\<close>, \<^verbatim>\<open>sentAt\<close>) are left out. The texts of the exceptions are
  Arabic in the source and are abbreviated in ASCII here.

  A database call throws only where the row it names is missing (an update of a row that
  is not there); an unreachable database is not modelled. One job runs at a time, and
  the requests of the control API are served between its steps.
\<close>

type_synonym ident = string

datatype BroadcastStatus =
  DRAFT | SCHEDULED | QUEUED | SENDING | PAUSED | COMPLETED | CANCELLED | FAILED

text \<open>
  Modelled from the spec: the enumeration of the statuses of a recipient row, which is
  declared in the database schema and not in the sources read here. The source writes
  \<^verbatim>\<open>'PENDING'\<close>, \<^verbatim>\<open>'SENT'\<close> and \<^verbatim>\<open>'FAILED'\<close> (here \<open>ROW_FAILED\<close>); the
  specification also names \<open>DELIVERED\<close>.
\<close>

datatype RecipientStatus = PENDING | SENT | DELIVERED | ROW_FAILED

datatype MessageType = TEXT | IMAGE | VIDEO | DOCUMENT | TEMPLATE | OTHER_TYPE string

text \<open>The source's \<^verbatim>\<open>'ALL'\<close> is written \<open>TARGET_ALL\<close>.\<close>

datatype TargetType = TARGET_ALL | GROUP | TAG | CUSTOM

record Contact =
  c_id :: ident
  c_tenantId :: ident
  c_phone :: "string option"
  c_name :: "string option"
  c_tags :: "string list"
  c_ordersCount :: int
  c_totalSpent :: int
  c_lastContactAt :: "int option"
  c_governorate :: "string option"

record GroupMember =
  gm_groupId :: ident
  gm_contactId :: ident

record Plan =
  broadcastsLimit :: int

record Tenant =
  t_id :: ident
  t_plan :: "Plan option"

record Filters =
  hasOrders :: "bool option"
  minSpent :: "int option"
  maxSpent :: "int option"
  lastContactAfter :: "int option"
  lastContactBefore :: "int option"
  governorate :: "string list option"

record CreateBroadcastDto =
  name :: string
  messageType :: MessageType
  content :: "string option"
  mediaUrl :: "string option"
  mediaCaption :: "string option"
  templateName :: "string option"
  templateParams :: "(string \<times> string) list option"
  targetType :: TargetType
  targetGroupIds :: "ident list option"
  targetTags :: "string list option"
  targetContactIds :: "ident list option"
  filters :: "Filters option"
  scheduledAt :: "int option"
  batchSize :: "int option"
  batchDelayMs :: "int option"

record Broadcast =
  b_id :: ident
  b_tenantId :: ident
  b_name :: string
  b_messageType :: MessageType
  b_content :: "string option"
  b_mediaUrl :: "string option"
  b_mediaCaption :: "string option"
  b_templateName :: "string option"
  b_templateParams :: "(string \<times> string) list"
  b_targetType :: TargetType
  b_targetGroupIds :: "ident list"
  b_targetTags :: "string list"
  b_targetContactIds :: "ident list"
  b_filters :: Filters
  totalRecipients :: int
  sentCount :: int
  failedCount :: int
  b_batchSize :: int
  b_batchDelayMs :: int
  b_status :: BroadcastStatus
  b_scheduledAt :: "int option"
  b_error :: "string option"

record BroadcastRecipient =
  r_id :: ident
  r_broadcastId :: ident
  r_contactId :: ident
  r_status :: RecipientStatus
  r_messageId :: "string option"
  r_error :: "string option"
  r_createdAt :: int

text \<open>The payload of a \<^verbatim>\<open>send-broadcast\<close> job and the calls made on the Bull queue.\<close>

record BroadcastJobData =
  j_broadcastId :: ident
  j_tenantId :: ident
  j_resume :: bool

datatype QueueOp =
  QueueAdd string BroadcastJobData "int option" string
  | QueueRemoveJobs string

record Store =
  tenants :: "Tenant list"
  contacts :: "Contact list"
  groupMembers :: "GroupMember list"
  broadcasts :: "Broadcast list"
  recipients :: "BroadcastRecipient list"
  queueOps :: "QueueOp list"

datatype Exception =
  NotFoundException string
  | BadRequestException string
  | Error string

type_synonym 'a result = "(Exception + 'a) \<times> Store"

section \<open>BroadcastsService\<close>

subsection \<open>calculateRecipients\<close>

text \<open>
  \<^verbatim>\<open>[...new Set(xs)]\<close>: the elements of \<open>xs\<close> in the order of their first occurrence.
\<close>

definition set_add :: "'a list \<Rightarrow> 'a \<Rightarrow> 'a list" where
  "set_add acc x = (if x \<in> set acc then acc else acc @ [x])"

definition new_Set :: "'a list \<Rightarrow> 'a list" where
  "new_Set xs = foldl set_add [] xs"

text \<open>
  JavaScript truthiness: an optional number counts when it is there and is not 0, an
  optional boolean when it is there and true.
\<close>

definition truthy_num :: "int option \<Rightarrow> int option" where
  "truthy_num v = (case v of None \<Rightarrow> None | Some n \<Rightarrow> (if n = 0 then None else Some n))"

definition truthy_bool :: "bool option \<Rightarrow> bool" where
  "truthy_bool v = (case v of None \<Rightarrow> False | Some b \<Rightarrow> b)"

text \<open>
  The \<^verbatim>\<open>where\<close> object of the filter query. Two spreads write the key
  \<^verbatim>\<open>totalSpent\<close> and two write \<^verbatim>\<open>lastContactAt\<close>; in an object literal the later
  spread replaces the earlier one, so the upper bound wins when both are given.
  A comparison on a column that is null does not match.
\<close>

definition filter_where :: "ident \<Rightarrow> ident list \<Rightarrow> Filters \<Rightarrow> Contact \<Rightarrow> bool" where
  "filter_where tenantId contactIds f c \<longleftrightarrow>
     c_id c \<in> set contactIds \<and>
     c_tenantId c = tenantId \<and>
     c_phone c \<noteq> None \<and>
     (truthy_bool (hasOrders f) \<longrightarrow> c_ordersCount c > 0) \<and>
     (case truthy_num (maxSpent f) of
        Some most \<Rightarrow> c_totalSpent c \<le> most
      | None \<Rightarrow>
          (case truthy_num (minSpent f) of
             Some least \<Rightarrow> c_totalSpent c \<ge> least
           | None \<Rightarrow> True)) \<and>
     (case lastContactBefore f of
        Some before \<Rightarrow> (case c_lastContactAt c of None \<Rightarrow> False | Some t \<Rightarrow> t \<le> before)
      | None \<Rightarrow>
          (case lastContactAfter f of
             Some after \<Rightarrow> (case c_lastContactAt c of None \<Rightarrow> False | Some t \<Rightarrow> t \<ge> after)
           | None \<Rightarrow> True)) \<and>
     (case governorate f of
        None \<Rightarrow> True
      | Some gs \<Rightarrow>
          (if gs = [] then True
           else (case c_governorate c of None \<Rightarrow> False | Some g \<Rightarrow> g \<in> set gs)))"

text \<open>The \<^verbatim>\<open>switch (dto.targetType)\<close>.\<close>

definition target_contacts :: "Store \<Rightarrow> ident \<Rightarrow> CreateBroadcastDto \<Rightarrow> ident list" where
  "target_contacts st tenantId dto =
     (case targetType dto of
        TARGET_ALL \<Rightarrow>
          map c_id (filter (\<lambda>c. c_tenantId c = tenantId \<and> c_phone c \<noteq> None) (contacts st))
      | GROUP \<Rightarrow>
          (case targetGroupIds dto of
             None \<Rightarrow> []
           | Some gids \<Rightarrow>
               (if gids = [] then []
                else new_Set (map gm_contactId
                       (filter (\<lambda>m. gm_groupId m \<in> set gids) (groupMembers st)))))
      | TAG \<Rightarrow>
          (case targetTags dto of
             None \<Rightarrow> []
           | Some ts \<Rightarrow>
               (if ts = [] then []
                else map c_id (filter (\<lambda>c. c_tenantId c = tenantId \<and>
                                            (\<exists>t \<in> set (c_tags c). t \<in> set ts)) (contacts st))))
      | CUSTOM \<Rightarrow> (case targetContactIds dto of None \<Rightarrow> [] | Some ids \<Rightarrow> ids))"

definition calculateRecipients :: "Store \<Rightarrow> ident \<Rightarrow> CreateBroadcastDto \<Rightarrow> ident list" where
  "calculateRecipients st tenantId dto =
     (let contactIds = target_contacts st tenantId dto
      in case filters dto of
           None \<Rightarrow> contactIds
         | Some f \<Rightarrow>
             (if contactIds \<noteq> []
              then map c_id (filter (filter_where tenantId contactIds f) (contacts st))
              else contactIds))"

subsection \<open>create\<close>

definition empty_filters :: Filters where
  "empty_filters = \<lparr> hasOrders = None, minSpent = None, maxSpent = None,
     lastContactAfter = None, lastContactBefore = None, governorate = None \<rparr>"

text \<open>\<^verbatim>\<open>x || d\<close> for an optional number: the default replaces a missing value and 0.\<close>

definition num_or :: "int option \<Rightarrow> int \<Rightarrow> int" where
  "num_or v d = (case truthy_num v of None \<Rightarrow> d | Some n \<Rightarrow> n)"

text \<open>
  The count of recipient rows of the tenant created since \<open>thisMonth\<close>
  (\<^verbatim>\<open>broadcastRecipient.count\<close> with \<^verbatim>\<open>broadcast: { tenantId }\<close>).
  \<open>thisMonth\<close> is the first instant of the current month, which the source computes
  from the clock with \<^verbatim>\<open>setDate(1)\<close> and \<^verbatim>\<open>setHours(0, 0, 0, 0)\<close>; it is a
  parameter here, as is \<open>now\<close>, the time of the call.
\<close>

definition monthlyCount :: "Store \<Rightarrow> ident \<Rightarrow> int \<Rightarrow> int" where
  "monthlyCount st tenantId thisMonth =
     int (length (filter
       (\<lambda>r. (\<exists>b \<in> set (broadcasts st). b_id b = r_broadcastId r \<and> b_tenantId b = tenantId) \<and>
             thisMonth \<le> r_createdAt r)
       (recipients st)))"

text \<open>
  Modelled from the spec: the defaults of the columns that \<^verbatim>\<open>create\<close> does not
  write, which are declared in the database schema and not in the sources read here. The
  counters of a new campaign are 0 and a new recipient row is \<open>PENDING\<close> (the
  specification: rows are created once, at campaign creation, in the state
  \<open>PENDING\<close>).
\<close>

definition default_count :: int where
  "default_count = 0"

definition default_row_status :: RecipientStatus where
  "default_row_status = PENDING"

text \<open>
  The broadcast row and its recipient rows as \<^verbatim>\<open>prisma.broadcast.create\<close> writes them.
  The database generates the identifiers: \<open>newId 0\<close> for the broadcast and
  \<open>newId (Suc k)\<close> for the \<open>k\<close>-th recipient row; the rows take the time of the
  insertion, \<open>now\<close>, as \<^verbatim>\<open>createdAt\<close>.
\<close>

definition new_broadcast :: "ident \<Rightarrow> ident \<Rightarrow> CreateBroadcastDto \<Rightarrow> int \<Rightarrow> Broadcast" where
  "new_broadcast bid tenantId dto n =
     \<lparr> b_id = bid,
       b_tenantId = tenantId,
       b_name = name dto,
       b_messageType = messageType dto,
       b_content = content dto,
       b_mediaUrl = mediaUrl dto,
       b_mediaCaption = mediaCaption dto,
       b_templateName = templateName dto,
       b_templateParams = (case templateParams dto of None \<Rightarrow> [] | Some ps \<Rightarrow> ps),
       b_targetType = targetType dto,
       b_targetGroupIds = (case targetGroupIds dto of None \<Rightarrow> [] | Some xs \<Rightarrow> xs),
       b_targetTags = (case targetTags dto of None \<Rightarrow> [] | Some xs \<Rightarrow> xs),
       b_targetContactIds = (case targetContactIds dto of None \<Rightarrow> [] | Some xs \<Rightarrow> xs),
       b_filters = (case filters dto of None \<Rightarrow> empty_filters | Some f \<Rightarrow> f),
       totalRecipients = n,
       sentCount = default_count,
       failedCount = default_count,
       b_batchSize = num_or (batchSize dto) 50,
       b_batchDelayMs = num_or (batchDelayMs dto) 1000,
       b_status = (if scheduledAt dto \<noteq> None then SCHEDULED else DRAFT),
       b_scheduledAt = scheduledAt dto,
       b_error = None \<rparr>"

definition new_recipient :: "(nat \<Rightarrow> ident) \<Rightarrow> ident \<Rightarrow> int \<Rightarrow> nat \<times> ident \<Rightarrow> BroadcastRecipient" where
  "new_recipient newId bid now kc =
     \<lparr> r_id = newId (Suc (fst kc)),
       r_broadcastId = bid,
       r_contactId = snd kc,
       r_status = default_row_status,
       r_messageId = None,
       r_error = None,
       r_createdAt = now \<rparr>"

definition job_id :: "ident \<Rightarrow> string" where
  "job_id bid = ''broadcast-'' @ bid"

definition create ::
  "int \<Rightarrow> int \<Rightarrow> (nat \<Rightarrow> ident) \<Rightarrow> Store \<Rightarrow> ident \<Rightarrow> CreateBroadcastDto \<Rightarrow> Broadcast result" where
  "create thisMonth now newId st tenantId dto =
     (let tenant = find (\<lambda>t. t_id t = tenantId) (tenants st);
          recipientIds = calculateRecipients st tenantId dto
      in if length recipientIds = 0
         then (Inl (BadRequestException ''no recipients match the targeting rule''), st)
         else
           (let count = monthlyCount st tenantId thisMonth
            in case tenant of
                 None \<Rightarrow> (Inl (Error ''TypeError: tenant is null''), st)
               | Some t \<Rightarrow>
                   (case t_plan t of
                      None \<Rightarrow> (Inl (Error ''TypeError: plan is null''), st)
                    | Some plan \<Rightarrow>
                        (if broadcastsLimit plan \<noteq> - 1 \<and>
                            count + int (length recipientIds) > broadcastsLimit plan
                         then (Inl (BadRequestException ''monthly broadcast limit exceeded''), st)
                         else
                           (let broadcast =
                                  new_broadcast (newId 0) tenantId dto (int (length recipientIds));
                                rows = map (new_recipient newId (newId 0) now)
                                         (enumerate 0 recipientIds);
                                st1 = st \<lparr> broadcasts := broadcasts st @ [broadcast],
                                           recipients := recipients st @ rows \<rparr>;
                                st2 = (case scheduledAt dto of
                                         None \<Rightarrow> st1
                                       | Some at \<Rightarrow>
                                           (if at - now > 0
                                            then st1 \<lparr> queueOps := queueOps st1 @
                                                   [QueueAdd ''send-broadcast''
                                                      \<lparr> j_broadcastId = newId 0,
                                                        j_tenantId = tenantId,
                                                        j_resume = False \<rparr>
                                                      (Some (at - now)) (job_id (newId 0))] \<rparr>
                                            else st1))
                            in (Inr broadcast, st2))))))"

subsection \<open>send, pause, resume, cancel\<close>

definition findFirst :: "Store \<Rightarrow> ident \<Rightarrow> ident \<Rightarrow> Broadcast option" where
  "findFirst st bid tenantId = find (\<lambda>b. b_id b = bid \<and> b_tenantId b = tenantId) (broadcasts st)"

definition findUnique :: "Store \<Rightarrow> ident \<Rightarrow> Broadcast option" where
  "findUnique st bid = find (\<lambda>b. b_id b = bid) (broadcasts st)"

text \<open>\<^verbatim>\<open>prisma.broadcast.update({ where: { id }, data })\<close> on a row that exists.\<close>

definition update_broadcast :: "ident \<Rightarrow> (Broadcast \<Rightarrow> Broadcast) \<Rightarrow> Store \<Rightarrow> Store" where
  "update_broadcast bid f st =
     st \<lparr> broadcasts := map (\<lambda>b. if b_id b = bid then f b else b) (broadcasts st) \<rparr>"

definition queue_add :: "BroadcastJobData \<Rightarrow> string \<Rightarrow> Store \<Rightarrow> Store" where
  "queue_add d jid st =
     st \<lparr> queueOps := queueOps st @ [QueueAdd ''send-broadcast'' d None jid] \<rparr>"

definition send :: "Store \<Rightarrow> ident \<Rightarrow> ident \<Rightarrow> unit result" where
  "send st tenantId bid =
     (case findFirst st bid tenantId of
        None \<Rightarrow> (Inl (NotFoundException ''broadcast not found''), st)
      | Some broadcast \<Rightarrow>
          (if b_status broadcast \<notin> {DRAFT, SCHEDULED}
           then (Inl (BadRequestException ''broadcast already running or completed''), st)
           else
             (let st1 = queue_add \<lparr> j_broadcastId = bid, j_tenantId = tenantId, j_resume = False \<rparr>
                          (job_id bid) st;
                  st2 = update_broadcast bid (\<lambda>b. b \<lparr> b_status := QUEUED \<rparr>) st1
              in (Inr (), st2))))"

definition pause :: "Store \<Rightarrow> ident \<Rightarrow> ident \<Rightarrow> unit result" where
  "pause st tenantId bid =
     (case findFirst st bid tenantId of
        None \<Rightarrow> (Inl (NotFoundException ''broadcast not found''), st)
      | Some broadcast \<Rightarrow>
          (if b_status broadcast \<noteq> SENDING
           then (Inl (BadRequestException ''broadcast is not sending''), st)
           else (Inr (), update_broadcast bid (\<lambda>b. b \<lparr> b_status := PAUSED \<rparr>) st)))"

definition resume :: "Store \<Rightarrow> ident \<Rightarrow> ident \<Rightarrow> unit result" where
  "resume st tenantId bid =
     (case findFirst st bid tenantId of
        None \<Rightarrow> (Inl (NotFoundException ''broadcast not found''), st)
      | Some broadcast \<Rightarrow>
          (if b_status broadcast \<noteq> PAUSED
           then (Inl (BadRequestException ''broadcast is not paused''), st)
           else
             (let st1 = queue_add \<lparr> j_broadcastId = bid, j_tenantId = tenantId, j_resume = True \<rparr>
                          (job_id bid @ ''-resume'') st;
                  st2 = update_broadcast bid (\<lambda>b. b \<lparr> b_status := SENDING \<rparr>) st1
              in (Inr (), st2))))"

definition cancel :: "Store \<Rightarrow> ident \<Rightarrow> ident \<Rightarrow> unit result" where
  "cancel st tenantId bid =
     (case findFirst st bid tenantId of
        None \<Rightarrow> (Inl (NotFoundException ''broadcast not found''), st)
      | Some broadcast \<Rightarrow>
          (if b_status broadcast \<notin> {QUEUED, SENDING, PAUSED, SCHEDULED}
           then (Inl (BadRequestException ''this broadcast cannot be cancelled''), st)
           else
             (let st1 = st \<lparr> queueOps := queueOps st @ [QueueRemoveJobs (job_id bid)] \<rparr>;
                  st2 = update_broadcast bid (\<lambda>b. b \<lparr> b_status := CANCELLED \<rparr>) st1
              in (Inr (), st2))))"

text \<open>The four requests of the control API that ask for a change of state.\<close>

datatype Request = SendNow | Pause | Resume | Cancel

fun control :: "Request \<Rightarrow> Store \<Rightarrow> ident \<Rightarrow> ident \<Rightarrow> unit result" where
  "control SendNow st tenantId bid = send st tenantId bid"
| "control Pause st tenantId bid = pause st tenantId bid"
| "control Resume st tenantId bid = resume st tenantId bid"
| "control Cancel st tenantId bid = cancel st tenantId bid"

text \<open>The message of the \<open>BadRequestException\<close> with which each request is rejected.\<close>

definition rejection :: "Request \<Rightarrow> string" where
  "rejection rq =
     (case rq of
        SendNow \<Rightarrow> ''broadcast already running or completed''
      | Pause \<Rightarrow> ''broadcast is not sending''
      | Resume \<Rightarrow> ''broadcast is not paused''
      | Cancel \<Rightarrow> ''this broadcast cannot be cancelled'')"

text \<open>
  The lifecycle state machine as the specification words it: the states from which each
  request is a permitted transition.
\<close>

fun permitted :: "Request \<Rightarrow> BroadcastStatus \<Rightarrow> bool" where
  "permitted SendNow s = (s = DRAFT \<or> s = SCHEDULED)"
| "permitted Pause s = (s = SENDING)"
| "permitted Resume s = (s = PAUSED)"
| "permitted Cancel s = (s = QUEUED \<or> s = SENDING \<or> s = PAUSED \<or> s = SCHEDULED)"

section \<open>BroadcastProcessor\<close>

subsection \<open>sendMessage\<close>

text \<open>
  The WhatsApp service is an external collaborator. A call either returns (with the
  optional \<^verbatim>\<open>key.id\<close> of the message) or throws (with the message of the error).
  \<^verbatim>\<open>interpolateVariables\<close> only shapes the text that is handed over, so the request
  carries the template and the contact name it is interpolated with.
\<close>

datatype WaRequest =
  SendTextMessage ident "string option" string string
  | SendMediaMessage ident "string option" string "string option" "string option"
  | SendTemplateMessage ident "string option" "string option" "(string \<times> string) list" string

datatype WaResult = WaReturned "string option" | WaThrown string

type_synonym gateway = "WaRequest \<Rightarrow> WaResult"

record SendResult =
  success :: bool
  messageId :: "string option"
  error :: "string option"

text \<open>\<^verbatim>\<open>contact.name || '...'\<close>: a missing or empty name gives the default.\<close>

definition contact_name :: "Contact \<Rightarrow> string" where
  "contact_name c =
     (case c_name c of
        None \<Rightarrow> ''dear customer''
      | Some n \<Rightarrow> (if n = [] then ''dear customer'' else n))"

text \<open>
  The body of the \<^verbatim>\<open>try\<close> block. Reading a property of a contact that is null, or
  calling \<^verbatim>\<open>replace\<close> on a content that is null, throws a TypeError.
\<close>

definition try_send :: "gateway \<Rightarrow> ident \<Rightarrow> Broadcast \<Rightarrow> Contact option \<Rightarrow> WaResult" where
  "try_send gw tenantId broadcast contact =
     (case b_messageType broadcast of
        TEXT \<Rightarrow>
          (case contact of
             None \<Rightarrow> WaThrown ''TypeError: contact is null''
           | Some c \<Rightarrow>
               (case b_content broadcast of
                  None \<Rightarrow> WaThrown ''TypeError: content is null''
                | Some t \<Rightarrow> gw (SendTextMessage tenantId (c_phone c) t (contact_name c))))
      | IMAGE \<Rightarrow>
          (case contact of
             None \<Rightarrow> WaThrown ''TypeError: contact is null''
           | Some c \<Rightarrow> gw (SendMediaMessage tenantId (c_phone c) ''image''
                             (b_mediaUrl broadcast) (b_mediaCaption broadcast)))
      | VIDEO \<Rightarrow>
          (case contact of
             None \<Rightarrow> WaThrown ''TypeError: contact is null''
           | Some c \<Rightarrow> gw (SendMediaMessage tenantId (c_phone c) ''video''
                             (b_mediaUrl broadcast) (b_mediaCaption broadcast)))
      | DOCUMENT \<Rightarrow>
          (case contact of
             None \<Rightarrow> WaThrown ''TypeError: contact is null''
           | Some c \<Rightarrow> gw (SendMediaMessage tenantId (c_phone c) ''document''
                             (b_mediaUrl broadcast) (b_mediaCaption broadcast)))
      | TEMPLATE \<Rightarrow>
          (case contact of
             None \<Rightarrow> WaThrown ''TypeError: contact is null''
           | Some c \<Rightarrow> gw (SendTemplateMessage tenantId (c_phone c) (b_templateName broadcast)
                             (b_templateParams broadcast) (contact_name c)))
      | OTHER_TYPE t \<Rightarrow> WaThrown (''Unsupported message type: '' @ t))"

definition sendMessage :: "gateway \<Rightarrow> ident \<Rightarrow> Broadcast \<Rightarrow> Contact option \<Rightarrow> SendResult" where
  "sendMessage gw tenantId broadcast contact =
     (case try_send gw tenantId broadcast contact of
        WaReturned mid \<Rightarrow> \<lparr> success = True, messageId = mid, error = None \<rparr>
      | WaThrown msg \<Rightarrow> \<lparr> success = False, messageId = None, error = Some msg \<rparr>)"

subsection \<open>handleSendBroadcast\<close>

text \<open>An element of the array that \<^verbatim>\<open>Promise.allSettled\<close> resolves to.\<close>

datatype Settled = Fulfilled SendResult | Rejected "string option"

text \<open>
  What a run does, in the order in which it does it: a call of the gateway for a recipient
  row, the read of the status at the start of an iteration (\<open>None\<close> when the broadcast
  is gone), a committed write to a recipient row, to the counters of the broadcast, or to
  its status (each with the store after it), a request of the control API served while
  the job runs (with the store after it), and a sleep between two batches.
  \<^verbatim>\<open>job.progress\<close> and the log lines change nothing in the store and are left out.
\<close>

datatype Event =
  GatewayCall ident
  | StatusRead "BroadcastStatus option"
  | RowWrite ident Store
  | CountWrite Store
  | StatusWrite Store
  | ControlWrite Store
  | Slept int

text \<open>
  The three objects that the job returns: \<^verbatim>\<open>{ success: false, reason: 'cancelled' }\<close>,
  \<^verbatim>\<open>{ success: true, reason, sentCount }\<close> and
  \<^verbatim>\<open>{ success: true, sentCount, failedCount }\<close>.
\<close>

datatype JobResult =
  Skipped string
  | Stopped string int
  | Finished int int

text \<open>
  A run returns, throws, or is still running when the observation ends: the loop takes a
  bound on the number of iterations that are observed, since with a negative
  \<^verbatim>\<open>batchSize\<close> the index \<open>i\<close> never reaches the length of the array.
\<close>

datatype JobOutcome = Returned JobResult | Threw Exception | StillRunning

type_synonym run = "JobOutcome \<times> Store \<times> Event list"

text \<open>\<^verbatim>\<open>Array.prototype.slice(start, end)\<close>.\<close>

definition js_slice :: "'a list \<Rightarrow> int \<Rightarrow> int \<Rightarrow> 'a list" where
  "js_slice xs start end =
     (let n = int (length xs);
          from = (if start < 0 then max (n + start) 0 else min start n);
          to = (if end < 0 then max (n + end) 0 else min end n)
      in take (nat (to - from)) (drop (nat from) xs))"

text \<open>\<^verbatim>\<open>status.toLowerCase()\<close> of the two statuses that stop the loop.\<close>

definition status_text :: "BroadcastStatus option \<Rightarrow> string" where
  "status_text s = (if s = Some PAUSED then ''paused'' else ''cancelled'')"

definition recipient_exists :: "Store \<Rightarrow> ident \<Rightarrow> bool" where
  "recipient_exists st rid \<longleftrightarrow> (\<exists>r \<in> set (recipients st). r_id r = rid)"

definition update_recipient ::
  "ident \<Rightarrow> (BroadcastRecipient \<Rightarrow> BroadcastRecipient) \<Rightarrow> Store \<Rightarrow> Store" where
  "update_recipient rid f st =
     st \<lparr> recipients := map (\<lambda>r. if r_id r = rid then f r else r) (recipients st) \<rparr>"

text \<open>
  The \<^verbatim>\<open>catch\<close> block of the job: the broadcast is marked \<open>FAILED\<close> with the message
  of the error, and the error is thrown again. The update itself throws when the
  broadcast row is gone.
\<close>

definition exception_text :: "Exception \<Rightarrow> string" where
  "exception_text e =
     (case e of NotFoundException m \<Rightarrow> m | BadRequestException m \<Rightarrow> m | Error m \<Rightarrow> m)"

definition on_error :: "ident \<Rightarrow> Exception \<Rightarrow> Store \<Rightarrow> Event list \<Rightarrow> run" where
  "on_error bid e st evs =
     (case findUnique st bid of
        None \<Rightarrow> (Threw (Error ''record to update not found''), st, evs)
      | Some _ \<Rightarrow>
          (let st1 = update_broadcast bid
                       (\<lambda>b. b \<lparr> b_status := FAILED, b_error := Some (exception_text e) \<rparr>) st
           in (Threw e, st1, evs @ [StatusWrite st1])))"

text \<open>
  The requests of the control API that are served while the job is between two of its own
  steps: each is a request, the tenant and the broadcast it names. A request that is
  rejected leaves the store as it is. The job reads the status only at the start of an
  iteration and writes it only before the loop and after it, and the requests write
  nothing but the status and the queue; so the requests are served at these points:
  \<open>sched 0\<close> between the first read of the broadcast and the write of \<open>SENDING\<close>,
  \<open>sched k\<close> before the \<open>k\<close>-th test of the loop.
\<close>

type_synonym schedule = "nat \<Rightarrow> (Request \<times> ident \<times> ident) list"

fun serve :: "(Request \<times> ident \<times> ident) list \<Rightarrow> Store \<Rightarrow> Store \<times> Event list" where
  "serve [] st = (st, [])"
| "serve (q # qs) st =
     (let st1 = snd (control (fst q) st (fst (snd q)) (snd (snd q)));
          rest = serve qs st1
      in (fst rest, ControlWrite st1 # snd rest))"

text \<open>
  The test \<^verbatim>\<open>result.status === 'fulfilled' && result.value.success\<close>, the error text
  \<^verbatim>\<open>error || 'Unknown error'\<close>, and the data of the two row updates.
\<close>

definition fulfilled_ok :: "Settled \<Rightarrow> bool" where
  "fulfilled_ok result = (case result of Fulfilled v \<Rightarrow> success v | Rejected _ \<Rightarrow> False)"

definition error_text :: "Settled \<Rightarrow> string" where
  "error_text result =
     (case (case result of Rejected reason \<Rightarrow> reason | Fulfilled v \<Rightarrow> error v) of
        None \<Rightarrow> ''Unknown error''
      | Some m \<Rightarrow> (if m = [] then ''Unknown error'' else m))"

definition row_update :: "Settled \<Rightarrow> BroadcastRecipient \<Rightarrow> BroadcastRecipient" where
  "row_update result r =
     (if fulfilled_ok result
      then r \<lparr> r_status := SENT,
               r_messageId := (case result of Fulfilled v \<Rightarrow> messageId v | Rejected _ \<Rightarrow> None) \<rparr>
      else r \<lparr> r_status := ROW_FAILED, r_error := Some (error_text result) \<rparr>)"

text \<open>
  The loop \<^verbatim>\<open>for (let j = 0; j < results.length; j++)\<close> over a batch and its settled
  results. It returns the exception of a failed row update, if any, the two local
  counters, the store and the writes made.
\<close>

fun record_results ::
  "(BroadcastRecipient \<times> Settled) list \<Rightarrow> int \<Rightarrow> int \<Rightarrow> Store
     \<Rightarrow> Exception option \<times> int \<times> int \<times> Store \<times> Event list" where
  "record_results [] sent failed st = (None, sent, failed, st, [])"
| "record_results ((recipient, result) # rest) sent failed st =
     (if \<not> recipient_exists st (r_id recipient)
      then (Some (Error ''record to update not found''), sent, failed, st, [])
      else
        (let st1 = update_recipient (r_id recipient) (row_update result) st;
             (e, sent', failed', st', evs) =
               (if fulfilled_ok result
                then record_results rest (sent + 1) failed st1
                else record_results rest sent (failed + 1) st1)
         in (e, sent', failed', st', RowWrite (r_id recipient) st1 # evs)))"

text \<open>
  What the job reads once, before the loop, and keeps: the gateway (the outcome of the
  call made for a recipient row, by the row's identifier), the served requests, the
  payload of the job, the broadcast as first read, the pending recipients as fetched
  (each with its contact), and the two pacing values.
\<close>

record JobCtx =
  gw :: "ident \<Rightarrow> gateway"
  sched :: schedule
  tenantId :: ident
  broadcastId :: ident
  broadcast :: Broadcast
  fetched :: "(BroadcastRecipient \<times> Contact option) list"
  batchSize' :: int
  batchDelayMs' :: int

definition send_batch :: "JobCtx \<Rightarrow> (BroadcastRecipient \<times> Contact option) list \<Rightarrow> Settled list" where
  "send_batch cx batch =
     map (\<lambda>rc. Fulfilled (sendMessage (gw cx (r_id (fst rc))) (tenantId cx) (broadcast cx) (snd rc)))
       batch"

text \<open>
  One pass through the loop, from its test to the sleep: either the job is over, or the
  loop goes on with new local counters and a new store.
\<close>

datatype Step = Exit run | Next int int Store "Event list"

definition iteration :: "JobCtx \<Rightarrow> nat \<Rightarrow> int \<Rightarrow> int \<Rightarrow> int \<Rightarrow> Store \<Rightarrow> Step" where
  "iteration cx k i sent failed st =
     (let (st0, evs0) = serve (sched cx k) st
      in if i < int (length (fetched cx))
         then
           (let cur = findUnique st0 (broadcastId cx);
                evs1 = evs0 @ [StatusRead (map_option b_status cur)]
            in if map_option b_status cur = Some PAUSED \<or> map_option b_status cur = Some CANCELLED
               then Exit (Returned (Stopped (status_text (map_option b_status cur)) sent),
                          st0, evs1)
               else
                 (let batch = js_slice (fetched cx) i (i + batchSize' cx);
                      results = send_batch cx batch;
                      calls = map (\<lambda>rc. GatewayCall (r_id (fst rc))) batch;
                      (e, sent1, failed1, st1, evs2) =
                        record_results (zip (map fst batch) results) sent failed st0
                  in case e of
                       Some ex \<Rightarrow> Exit (on_error (broadcastId cx) ex st1 (evs1 @ calls @ evs2))
                     | None \<Rightarrow>
                         (case findUnique st1 (broadcastId cx) of
                            None \<Rightarrow>
                              Exit (on_error (broadcastId cx) (Error ''record to update not found'')
                                      st1 (evs1 @ calls @ evs2))
                          | Some _ \<Rightarrow>
                              (let st2 = update_broadcast (broadcastId cx)
                                     (\<lambda>b. b \<lparr> sentCount := sent1, failedCount := failed1 \<rparr>) st1
                               in Next sent1 failed1 st2
                                    (evs1 @ calls @ evs2 @ [CountWrite st2] @
                                     (if i + batchSize' cx < int (length (fetched cx))
                                      then [Slept (batchDelayMs' cx)] else []))))))
         else
           (case findUnique st0 (broadcastId cx) of
              None \<Rightarrow>
                Exit (on_error (broadcastId cx) (Error ''record to update not found'') st0 evs0)
            | Some _ \<Rightarrow>
                (let st1 = update_broadcast (broadcastId cx)
                             (\<lambda>b. b \<lparr> b_status := COMPLETED, sentCount := sent,
                                       failedCount := failed \<rparr>) st0
                 in Exit (Returned (Finished sent failed), st1, evs0 @ [StatusWrite st1]))))"

text \<open>
  The loop \<^verbatim>\<open>for (let i = 0; i < recipients.length; i += batchSize)\<close>, observed for
  at most \<open>n\<close> iterations. \<open>k\<close> counts the points at which control requests are served.
\<close>

fun batch_loop :: "nat \<Rightarrow> JobCtx \<Rightarrow> nat \<Rightarrow> int \<Rightarrow> int \<Rightarrow> int \<Rightarrow> Store \<Rightarrow> run" where
  "batch_loop 0 cx k i sent failed st = (StillRunning, st, [])"
| "batch_loop (Suc n) cx k i sent failed st =
     (case iteration cx k i sent failed st of
        Exit r \<Rightarrow> r
      | Next sent1 failed1 st1 evs1 \<Rightarrow>
          (let (out, st2, evs2) = batch_loop n cx (Suc k) (i + batchSize' cx) sent1 failed1 st1
           in (out, st2, evs1 @ evs2)))"

text \<open>
  The job. The recipients are fetched once, \<^verbatim>\<open>orderBy: { createdAt: 'asc' }\<close>. The
  query names no second sort key, so the order among rows with equal
  \<^verbatim>\<open>createdAt\<close> is the database's: \<open>ord\<close> is the order in which the database
  returns the matching rows, which it is given in the order of the table (the property
  \<open>orders_by_createdAt\<close> below says what an answer to the query has to satisfy). The
  local counters start from the counters of the broadcast as first read
  (\<^verbatim>\<open>broadcast.sentCount || 0\<close>), and \<^verbatim>\<open>||\<close> replaces a batch size or a delay of 0
  by 50 and by 1000. The flag \<^verbatim>\<open>resume\<close> of the payload decides only whether
  \<^verbatim>\<open>startedAt\<close> is written.
\<close>

type_synonym row_order = "BroadcastRecipient list \<Rightarrow> BroadcastRecipient list"

definition pending_rows :: "Store \<Rightarrow> ident \<Rightarrow> BroadcastRecipient list" where
  "pending_rows st bid =
     filter (\<lambda>r. r_broadcastId r = bid \<and> r_status r = PENDING) (recipients st)"

definition findMany_pending_by ::
  "row_order \<Rightarrow> Store \<Rightarrow> ident \<Rightarrow> (BroadcastRecipient \<times> Contact option) list" where
  "findMany_pending_by ord st bid =
     map (\<lambda>r. (r, find (\<lambda>c. c_id c = r_contactId r) (contacts st)))
       (ord (pending_rows st bid))"

definition job_ctx_by ::
  "row_order \<Rightarrow> (ident \<Rightarrow> gateway) \<Rightarrow> schedule \<Rightarrow> BroadcastJobData \<Rightarrow> Broadcast \<Rightarrow> Store
     \<Rightarrow> JobCtx" where
  "job_ctx_by ord g sc job b st =
     \<lparr> gw = g, sched = sc,
       tenantId = j_tenantId job,
       broadcastId = j_broadcastId job,
       broadcast = b,
       fetched = findMany_pending_by ord st (j_broadcastId job),
       batchSize' = (if b_batchSize b = 0 then 50 else b_batchSize b),
       batchDelayMs' = (if b_batchDelayMs b = 0 then 1000 else b_batchDelayMs b) \<rparr>"

definition handleSendBroadcast_by ::
  "row_order \<Rightarrow> nat \<Rightarrow> (ident \<Rightarrow> gateway) \<Rightarrow> schedule \<Rightarrow> Store \<Rightarrow> BroadcastJobData \<Rightarrow> run" where
  "handleSendBroadcast_by ord n g sc st job =
     (case findUnique st (j_broadcastId job) of
        None \<Rightarrow> on_error (j_broadcastId job) (Error ''Broadcast not found'') st []
      | Some b \<Rightarrow>
          (if b_status b = CANCELLED
           then (Returned (Skipped ''cancelled''), st, [])
           else
             (let (st0, evs0) = serve (sc 0) st
              in case findUnique st0 (j_broadcastId job) of
                   None \<Rightarrow>
                     on_error (j_broadcastId job) (Error ''record to update not found'') st0 evs0
                 | Some _ \<Rightarrow>
                     (let st1 = update_broadcast (j_broadcastId job)
                                  (\<lambda>b. b \<lparr> b_status := SENDING \<rparr>) st0;
                          (out, st2, evs) =
                            batch_loop n (job_ctx_by ord g sc job b st1) 1 0
                              (sentCount b) (failedCount b) st1
                      in (out, st2, evs0 @ [StatusWrite st1] @ evs)))))"

text \<open>
  What an answer to \<^verbatim>\<open>orderBy: { createdAt: 'asc' }\<close> satisfies, whatever the rows: it
  holds the same rows, each as often as it was given, and \<^verbatim>\<open>createdAt\<close> never
  decreases along it.
\<close>

definition orders_by_createdAt :: "row_order \<Rightarrow> bool" where
  "orders_by_createdAt ord \<longleftrightarrow>
     (\<forall>rows. mset (ord rows) = mset rows \<and> sorted (map r_createdAt (ord rows)))"

text \<open>
  Two such answers: among rows with equal \<^verbatim>\<open>createdAt\<close> the first keeps the order
  of the table and the second reverses it.
\<close>

definition table_order :: row_order where
  "table_order rows = sort_key r_createdAt rows"


text \<open>
  The job on a database that keeps the order of the table among rows with equal
  \<^verbatim>\<open>createdAt\<close>.
\<close>

definition findMany_pending :: "Store \<Rightarrow> ident \<Rightarrow> (BroadcastRecipient \<times> Contact option) list" where
  "findMany_pending st bid = findMany_pending_by table_order st bid"

definition job_ctx ::
  "(ident \<Rightarrow> gateway) \<Rightarrow> schedule \<Rightarrow> BroadcastJobData \<Rightarrow> Broadcast \<Rightarrow> Store \<Rightarrow> JobCtx" where
  "job_ctx g sc job b st = job_ctx_by table_order g sc job b st"

definition handleSendBroadcast ::
  "nat \<Rightarrow> (ident \<Rightarrow> gateway) \<Rightarrow> schedule \<Rightarrow> Store \<Rightarrow> BroadcastJobData \<Rightarrow> run" where
  "handleSendBroadcast n g sc st job = handleSendBroadcast_by table_order n g sc st job"

subsection \<open>What is observed of a run\<close>

fun store_of :: "Event \<Rightarrow> Store option" where
  "store_of (GatewayCall _) = None"
| "store_of (StatusRead _) = None"
| "store_of (RowWrite _ st) = Some st"
| "store_of (CountWrite st) = Some st"
| "store_of (StatusWrite st) = Some st"
| "store_of (ControlWrite st) = Some st"
| "store_of (Slept _) = None"

text \<open>The committed states of a run, in order, and the gateway calls, in order.\<close>

definition committed :: "Event list \<Rightarrow> Store list" where
  "committed evs = List.map_filter store_of evs"

fun call_of :: "Event \<Rightarrow> ident option" where
  "call_of (GatewayCall rid) = Some rid"
| "call_of _ = None"

definition gateway_calls :: "Event list \<Rightarrow> ident list" where
  "gateway_calls evs = List.map_filter call_of evs"

fun sleep_of :: "Event \<Rightarrow> int option" where
  "sleep_of (Slept ms) = Some ms"
| "sleep_of _ = None"

text \<open>
  The sizes of the batches of a run: the gateway calls between two consecutive writes of
  the counters.
\<close>

fun batch_sizes :: "nat \<Rightarrow> Event list \<Rightarrow> nat list" where
  "batch_sizes c [] = []"
| "batch_sizes c (GatewayCall _ # evs) = batch_sizes (Suc c) evs"
| "batch_sizes c (CountWrite _ # evs) = c # batch_sizes 0 evs"
| "batch_sizes c (_ # evs) = batch_sizes c evs"

definition pendingCount :: "Store \<Rightarrow> ident \<Rightarrow> int" where
  "pendingCount st bid = int (length (pending_rows st bid))"

definition row_status :: "Store \<Rightarrow> ident \<Rightarrow> RecipientStatus option" where
  "row_status st rid = map_option r_status (find (\<lambda>r. r_id r = rid) (recipients st))"

subsection \<open>Example data\<close>

definition ex_contact :: "ident \<Rightarrow> string option \<Rightarrow> string list \<Rightarrow> Contact" where
  "ex_contact cid ph tgs =
     \<lparr> c_id = cid, c_tenantId = ''t1'', c_phone = ph, c_name = None, c_tags = tgs,
       c_ordersCount = 0, c_totalSpent = 0, c_lastContactAt = None, c_governorate = None \<rparr>"

definition ex_dto :: "TargetType \<Rightarrow> CreateBroadcastDto" where
  "ex_dto tt =
     \<lparr> name = ''promo'', messageType = TEXT, content = Some ''hello'', mediaUrl = None,
       mediaCaption = None, templateName = None, templateParams = None, targetType = tt,
       targetGroupIds = None, targetTags = None, targetContactIds = None, filters = None,
       scheduledAt = None, batchSize = None, batchDelayMs = None \<rparr>"

definition ex_row :: "ident \<Rightarrow> ident \<Rightarrow> BroadcastRecipient" where
  "ex_row rid cid =
     \<lparr> r_id = rid, r_broadcastId = ''b1'', r_contactId = cid, r_status = PENDING,
       r_messageId = None, r_error = None, r_createdAt = 0 \<rparr>"

definition ex_broadcast :: "int \<Rightarrow> int \<Rightarrow> int \<Rightarrow> BroadcastStatus \<Rightarrow> Broadcast" where
  "ex_broadcast n bs delay s =
     (new_broadcast ''b1'' ''t1'' (ex_dto TARGET_ALL) n)
       \<lparr> b_batchSize := bs, b_batchDelayMs := delay, b_status := s \<rparr>"

definition ex_tenant1 :: Tenant where
  "ex_tenant1 = \<lparr> t_id = ''t1'', t_plan = Some \<lparr> broadcastsLimit = 2 \<rparr> \<rparr>"

definition ex_tenant2 :: Tenant where
  "ex_tenant2 = \<lparr> t_id = ''t2'', t_plan = Some \<lparr> broadcastsLimit = - 1 \<rparr> \<rparr>"

definition ex_store :: "Contact list \<Rightarrow> Broadcast list \<Rightarrow> BroadcastRecipient list \<Rightarrow> Store" where
  "ex_store cs bs rs =
     \<lparr> tenants = [ex_tenant1, ex_tenant2],
       contacts = cs, groupMembers = [], broadcasts = bs, recipients = rs, queueOps = [] \<rparr>"

definition ex_job :: BroadcastJobData where
  "ex_job = \<lparr> j_broadcastId = ''b1'', j_tenantId = ''t1'', j_resume = False \<rparr>"

definition five_contacts :: "Contact list" where
  "five_contacts = map (\<lambda>c. ex_contact c (Some ''2010'') []) [''c1'', ''c2'', ''c3'', ''c4'', ''c5'']"

definition five_rows :: "BroadcastRecipient list" where
  "five_rows = map (\<lambda>(r, c). ex_row r c)
     [(''r1'', ''c1''), (''r2'', ''c2''), (''r3'', ''c3''), (''r4'', ''c4''), (''r5'', ''c5'')]"

definition gw_ok :: "ident \<Rightarrow> gateway" where
  "gw_ok rid rq = WaReturned (Some ''wamid'')"

definition gw_timeout :: "ident \<Rightarrow> gateway" where
  "gw_timeout rid rq = WaThrown ''timeout''"

definition no_requests :: schedule where
  "no_requests k = []"

definition ex_rc1 :: "BroadcastRecipient \<times> Contact option" where
  "ex_rc1 = (ex_row ''r1'' ''c1'', Some (ex_contact ''c1'' (Some ''2010'') []))"

definition ex_rc5 :: "BroadcastRecipient \<times> Contact option" where
  "ex_rc5 = (ex_row ''r5'' ''c5'', Some (ex_contact ''c5'' (Some ''2010'') []))"

definition ex1 :: Store where
  "ex1 = ex_store [ex_contact ''c1'' (Some ''2010'') []] [ex_broadcast 1 2 0 QUEUED] [ex_row ''r1'' ''c1'']"

definition ex5 :: Store where
  "ex5 = ex_store five_contacts [ex_broadcast 5 2 0 QUEUED] five_rows"

definition ex_draft :: Store where
  "ex_draft = ex_store [ex_contact ''c1'' (Some ''2010'') []] [ex_broadcast 1 2 0 DRAFT] [ex_row ''r1'' ''c1'']"

definition ex_targets :: Store where
  "ex_targets = ex_store [ex_contact ''c1'' (Some ''2010'') [], ex_contact ''c2'' None [''vip'']] [] []"

definition ex_empty :: Store where
  "ex_empty = ex_store [] [] []"

definition ex_newId :: "nat \<Rightarrow> ident" where
  "ex_newId k = ''id'' @ replicate k CHR ''x''"

definition dto_custom :: "ident list \<Rightarrow> CreateBroadcastDto" where
  "dto_custom ids = (ex_dto CUSTOM) \<lparr> targetContactIds := Some ids \<rparr>"

definition dto_tag :: "string list \<Rightarrow> CreateBroadcastDto" where
  "dto_tag ts = (ex_dto TAG) \<lparr> targetTags := Some ts \<rparr>"

definition pause_after_first_batch :: schedule where
  "pause_after_first_batch k = (if k = 2 then [(Pause, ''t1'', ''b1'')] else [])"





definition ex5_paused :: Store where
  "ex5_paused = ex_store five_contacts [ex_broadcast 5 2 0 PAUSED] five_rows"

definition ex5_cancelled :: Store where
  "ex5_cancelled = ex_store five_contacts [ex_broadcast 5 2 0 CANCELLED] five_rows"

definition ex_resume_job :: BroadcastJobData where
  "ex_resume_job = \<lparr> j_broadcastId = ''b1'', j_tenantId = ''t1'', j_resume = True \<rparr>"

definition cancel_before_start :: schedule where
  "cancel_before_start k = (if k = 0 then [(Cancel, ''t1'', ''b1'')] else [])"


definition run_timeout1 :: run where
  "run_timeout1 = handleSendBroadcast 3 gw_timeout no_requests ex1 ex_job"

definition run_paused5 :: run where
  "run_paused5 = handleSendBroadcast 4 gw_ok pause_after_first_batch ex5 ex_job"

definition run_cancelled_early :: run where
  "run_cancelled_early = handleSendBroadcast 4 gw_ok cancel_before_start ex5 ex_job"

definition run_on_paused :: run where
  "run_on_paused = handleSendBroadcast 4 gw_ok no_requests ex5_paused ex_resume_job"

definition run_on_cancelled :: run where
  "run_on_cancelled = handleSendBroadcast 4 gw_ok no_requests ex5_cancelled ex_job"


definition mid_timeout1 :: Store where
  "mid_timeout1 = committed (snd (snd run_timeout1)) ! 1"



section \<open>Observations and invariants\<close>

subsection \<open>Reading a store\<close>

text \<open>
  The counters of a broadcast in a store (0 when the broadcast is missing), whether the
  broadcast is there, and the sum that the conservation property is about.
\<close>

definition sent_of :: "Store \<Rightarrow> ident \<Rightarrow> int" where
  "sent_of st bid = (case findUnique st bid of None \<Rightarrow> 0 | Some b \<Rightarrow> sentCount b)"

definition failed_of :: "Store \<Rightarrow> ident \<Rightarrow> int" where
  "failed_of st bid = (case findUnique st bid of None \<Rightarrow> 0 | Some b \<Rightarrow> failedCount b)"

definition total_of :: "Store \<Rightarrow> ident \<Rightarrow> int" where
  "total_of st bid = (case findUnique st bid of None \<Rightarrow> 0 | Some b \<Rightarrow> totalRecipients b)"

definition exists_b :: "Store \<Rightarrow> ident \<Rightarrow> bool" where
  "exists_b st bid = (findUnique st bid \<noteq> None)"

definition tally :: "Store \<Rightarrow> ident \<Rightarrow> int" where
  "tally st bid = sent_of st bid + failed_of st bid + pendingCount st bid"

definition counters_le :: "ident \<Rightarrow> Store \<Rightarrow> Store \<Rightarrow> bool" where
  "counters_le bid x y \<longleftrightarrow> sent_of x bid \<le> sent_of y bid \<and> failed_of x bid \<le> failed_of y bid"

text \<open>The number of recipient rows of a broadcast that are in a given state.\<close>

definition rowCount :: "Store \<Rightarrow> ident \<Rightarrow> RecipientStatus \<Rightarrow> int" where
  "rowCount st bid X =
     int (length (filter (\<lambda>r. r_broadcastId r = bid \<and> r_status r = X) (recipients st)))"

text \<open>
  Two stores that differ in nothing but the statuses of broadcasts and the queue: what
  the requests of the control API and the write of \<open>SENDING\<close> can change.
\<close>

definition status_only :: "Store \<Rightarrow> Store \<Rightarrow> bool" where
  "status_only st st' \<longleftrightarrow>
     recipients st' = recipients st \<and> contacts st' = contacts st \<and>
     (\<forall>bid. map_option (\<lambda>b. b\<lparr>b_status := DRAFT\<rparr>) (findUnique st' bid)
          = map_option (\<lambda>b. b\<lparr>b_status := DRAFT\<rparr>) (findUnique st bid))"

definition started :: "schedule \<Rightarrow> Store \<Rightarrow> BroadcastJobData \<Rightarrow> Store" where
  "started sc st job =
     update_broadcast (j_broadcastId job) (\<lambda>b. b\<lparr>b_status := SENDING\<rparr>) (fst (serve (sc 0) st))"

subsection \<open>Reading the events of a run\<close>

text \<open>
  The recipient rows written, in order; the committed states at the boundaries of
  batches (after a write of the counters or of the status); the statuses read at the
  starts of the iterations, in order; the statuses that a broadcast goes through in the
  committed states of a run; and the statuses that stop the loop.
\<close>

fun write_of :: "Event \<Rightarrow> ident option" where
  "write_of (RowWrite rid _) = Some rid"
| "write_of _ = None"

definition row_written :: "Event list \<Rightarrow> ident list" where
  "row_written evs = List.map_filter write_of evs"

fun boundary_of :: "Event \<Rightarrow> Store option" where
  "boundary_of (CountWrite st) = Some st"
| "boundary_of (StatusWrite st) = Some st"
| "boundary_of _ = None"

definition boundaries :: "Event list \<Rightarrow> Store list" where
  "boundaries evs = List.map_filter boundary_of evs"

fun read_of :: "Event \<Rightarrow> BroadcastStatus option option" where
  "read_of (StatusRead s) = Some s"
| "read_of _ = None"

definition status_reads :: "Event list \<Rightarrow> BroadcastStatus option list" where
  "status_reads evs = List.map_filter read_of evs"

definition status_trace :: "ident \<Rightarrow> Event list \<Rightarrow> BroadcastStatus option list" where
  "status_trace bid evs =
     remdups_adj (map (\<lambda>x. map_option b_status (findUnique x bid)) (committed evs))"

definition stopping :: "BroadcastStatus option \<Rightarrow> bool" where
  "stopping s \<longleftrightarrow> s = Some PAUSED \<or> s = Some CANCELLED"

text \<open>
  \<open>observed bid st False evs\<close> reads the events of a run from the first iteration
  on, \<open>st\<close> being the store in which they start, and follows the store through the
  writes: every status read returns the status that the broadcast \<open>bid\<close> has in the
  store at that moment; a gateway call or a row write is allowed only after the status
  has been read in the same iteration and was neither \<open>PAUSED\<close> nor \<open>CANCELLED\<close>;
  after a read of \<open>PAUSED\<close> or \<open>CANCELLED\<close> nothing at all happens. The flag says
  whether the status has been read since the last write of the counters.
\<close>

fun observed :: "ident \<Rightarrow> Store \<Rightarrow> bool \<Rightarrow> Event list \<Rightarrow> bool" where
  "observed bid cur ok [] = True"
| "observed bid cur ok (StatusRead s # evs) =
     (s = map_option b_status (findUnique cur bid) \<and>
      (if stopping s then evs = [] else observed bid cur True evs))"
| "observed bid cur ok (GatewayCall _ # evs) = (ok \<and> observed bid cur ok evs)"
| "observed bid cur ok (RowWrite _ x # evs) = (ok \<and> observed bid x ok evs)"
| "observed bid cur ok (CountWrite x # evs) = observed bid x False evs"
| "observed bid cur ok (StatusWrite x # evs) = observed bid x ok evs"
| "observed bid cur ok (ControlWrite x # evs) = observed bid x ok evs"
| "observed bid cur ok (Slept _ # evs) = observed bid cur ok evs"

subsection \<open>One batch, written out\<close>

text \<open>
  The effect of \<open>record_results\<close> when every row exists: the store after the row
  updates, the writes, and the numbers of rows recorded \<open>SENT\<close> and \<open>FAILED\<close>; then
  the batch as the loop handles it.
\<close>

fun apply_updates :: "(BroadcastRecipient \<times> Settled) list \<Rightarrow> Store \<Rightarrow> Store" where
  "apply_updates [] st = st"
| "apply_updates (p # ps) st = apply_updates ps (update_recipient (r_id (fst p)) (row_update (snd p)) st)"

fun row_writes :: "(BroadcastRecipient \<times> Settled) list \<Rightarrow> Store \<Rightarrow> Event list" where
  "row_writes [] st = []"
| "row_writes (p # ps) st =
     RowWrite (r_id (fst p)) (update_recipient (r_id (fst p)) (row_update (snd p)) st)
       # row_writes ps (update_recipient (r_id (fst p)) (row_update (snd p)) st)"

definition count_ok :: "(BroadcastRecipient \<times> Settled) list \<Rightarrow> int" where
  "count_ok ps = int (length (filter (\<lambda>p. fulfilled_ok (snd p)) ps))"

definition count_failed :: "(BroadcastRecipient \<times> Settled) list \<Rightarrow> int" where
  "count_failed ps = int (length (filter (\<lambda>p. \<not> fulfilled_ok (snd p)) ps))"

definition batch_ps :: "JobCtx \<Rightarrow> (BroadcastRecipient \<times> Contact option) list \<Rightarrow> (BroadcastRecipient \<times> Settled) list" where
  "batch_ps cx batch = zip (map fst batch) (send_batch cx batch)"

definition after_batch ::
  "JobCtx \<Rightarrow> (BroadcastRecipient \<times> Contact option) list \<Rightarrow> int \<Rightarrow> int \<Rightarrow> Store \<Rightarrow> Store" where
  "after_batch cx batch s f st0 =
     update_broadcast (broadcastId cx)
       (\<lambda>b. b\<lparr>sentCount := s + count_ok (batch_ps cx batch),
                failedCount := f + count_failed (batch_ps cx batch)\<rparr>)
       (apply_updates (batch_ps cx batch) st0)"

definition batch_events ::
  "JobCtx \<Rightarrow> (BroadcastRecipient \<times> Contact option) list \<Rightarrow> int \<Rightarrow> int \<Rightarrow> Store \<Rightarrow> Event list" where
  "batch_events cx batch s f st0 =
     map (\<lambda>rc. GatewayCall (r_id (fst rc))) batch @ row_writes (batch_ps cx batch) st0 @
     [CountWrite (after_batch cx batch s f st0)]"

definition batch_at :: "JobCtx \<Rightarrow> nat \<Rightarrow> nat \<Rightarrow> (BroadcastRecipient \<times> Contact option) list" where
  "batch_at cx m l = take l (drop m (fetched cx))"

definition read_status :: "JobCtx \<Rightarrow> nat \<Rightarrow> Store \<Rightarrow> BroadcastStatus option" where
  "read_status cx k st = map_option b_status (findUnique (fst (serve (sched cx k) st)) (broadcastId cx))"

definition sleep_events :: "JobCtx \<Rightarrow> int \<Rightarrow> Event list" where
  "sleep_events cx i =
     (if i + batchSize' cx < int (length (fetched cx)) then [Slept (batchDelayMs' cx)] else [])"

definition recorded :: "JobCtx \<Rightarrow> BroadcastRecipient \<times> Contact option \<Rightarrow> RecipientStatus" where
  "recorded cx rc =
     (if success (sendMessage (gw cx (r_id (fst rc))) (tenantId cx) (broadcast cx) (snd rc))
      then SENT else ROW_FAILED)"

subsection \<open>The invariant of the loop\<close>

text \<open>
  \<open>slice_rel bs N m i\<close> relates the index \<open>i\<close> of the loop to the number \<open>m\<close> of
  fetched rows that have been sent so far, for every sign of the batch size \<open>bs\<close>:
  with a positive batch size \<open>m\<close> is \<open>i\<close> (capped at \<open>N\<close>); with a negative one
  the first slice \<^verbatim>\<open>slice(0, bs)\<close> takes all but the last \<open>-bs\<close> rows and every later
  slice is empty. \<open>loop_inv\<close> adds that identifiers are unique, that the rows not yet
  sent are still in the store as they were fetched, and that the local counters are the
  counters of the broadcast in the store.
\<close>

definition slice_rel :: "int \<Rightarrow> nat \<Rightarrow> nat \<Rightarrow> int \<Rightarrow> bool" where
  "slice_rel bs N m i \<longleftrightarrow>
     m \<le> N \<and> (\<not> i < int N \<longrightarrow> m = N) \<and>
     (if 0 < bs then 0 \<le> i \<and> m = min (nat i) N
      else if bs = 0 then True
      else (i = 0 \<and> m = 0) \<or> i < 0)"

definition loop_inv :: "JobCtx \<Rightarrow> nat \<Rightarrow> int \<Rightarrow> int \<Rightarrow> int \<Rightarrow> Store \<Rightarrow> bool" where
  "loop_inv cx m i s f st \<longleftrightarrow>
     slice_rel (batchSize' cx) (length (fetched cx)) m i \<and>
     distinct (map (\<lambda>rc. r_id (fst rc)) (fetched cx)) \<and>
     distinct (map r_id (recipients st)) \<and>
     (\<forall>rc \<in> set (drop m (fetched cx)).
        fst rc \<in> set (recipients st) \<and> r_broadcastId (fst rc) = broadcastId cx \<and>
        r_status (fst rc) = PENDING) \<and>
     exists_b st (broadcastId cx) \<and>
     sent_of st (broadcastId cx) = s \<and> failed_of st (broadcastId cx) = f"

text \<open>What is proved of a run of the loop by induction on the iterations observed.\<close>

definition rows_ok :: "JobCtx \<Rightarrow> nat \<Rightarrow> Store \<Rightarrow> run \<Rightarrow> bool" where
  "rows_ok cx m st r \<longleftrightarrow>
     (case r of (out, st', evs) \<Rightarrow>
        (\<exists>l. m + l \<le> length (fetched cx) \<and>
             gateway_calls evs = map (\<lambda>rc. r_id (fst rc)) (take l (drop m (fetched cx))) \<and>
             (\<forall>a b. out = Returned (Finished a b) \<longrightarrow> m + l = length (fetched cx))) \<and>
        row_written evs = gateway_calls evs \<and>
        observed (broadcastId cx) st False evs \<and>
        (\<forall>e. out \<noteq> Threw e) \<and>
        map r_id (recipients st') = map r_id (recipients st) \<and>
        (\<forall>t c. out = Returned (Stopped t c) \<longrightarrow>
           stopping (map_option b_status (findUnique st' (broadcastId cx)))) \<and>
        (\<forall>a b. out = Returned (Finished a b) \<longrightarrow>
           map_option b_status (findUnique st' (broadcastId cx)) = Some COMPLETED) \<and>
        (\<forall>x. x \<notin> set (gateway_calls evs) \<longrightarrow> row_status st' x = row_status st x) \<and>
        (\<forall>rc \<in> set (drop m (fetched cx)).
           r_id (fst rc) \<in> set (gateway_calls evs) \<longrightarrow>
           row_status st' (r_id (fst rc)) = Some (recorded cx rc)) \<and>
        (\<forall>rc \<in> set (drop m (fetched cx)).
           r_id (fst rc) \<notin> set (gateway_calls evs) \<longrightarrow> fst rc \<in> set (recipients st')))"

definition counts_ok :: "JobCtx \<Rightarrow> int \<Rightarrow> int \<Rightarrow> int \<Rightarrow> Store \<Rightarrow> run \<Rightarrow> bool" where
  "counts_ok cx T s f st r \<longleftrightarrow>
     (tally st (broadcastId cx) = T \<and> total_of st (broadcastId cx) = T \<longrightarrow>
      (case r of (out, st', evs) \<Rightarrow>
         (\<forall>x \<in> set (committed evs).
            exists_b x (broadcastId cx) \<and> total_of x (broadcastId cx) = T \<and>
            tally x (broadcastId cx) \<le> T \<and>
            s \<le> sent_of x (broadcastId cx) \<and> f \<le> failed_of x (broadcastId cx)) \<and>
         (\<forall>x \<in> set (boundaries evs). tally x (broadcastId cx) = T) \<and>
         sorted_wrt (counters_le (broadcastId cx)) (committed evs) \<and>
         exists_b st' (broadcastId cx) \<and> total_of st' (broadcastId cx) = T \<and>
         tally st' (broadcastId cx) = T \<and>
         s \<le> sent_of st' (broadcastId cx) \<and> f \<le> failed_of st' (broadcastId cx)))"



section \<open>Lemmas\<close>

subsection \<open>Writes to the store\<close>

lemma find_map_update:
  assumes "\<And>b. b_id (f b) = b_id b"
  shows "find (\<lambda>b. b_id b = bid) (map (\<lambda>b. if b_id b = x then f b else b) bs)
       = map_option (\<lambda>b. if b_id b = x then f b else b) (find (\<lambda>b. b_id b = bid) bs)"
  using assms by (induction bs) auto

lemma findUnique_update_broadcast:
  assumes "\<And>b. b_id (f b) = b_id b"
  shows "findUnique (update_broadcast x f st) bid
       = map_option (\<lambda>b. if b_id b = x then f b else b) (findUnique st bid)"
  using find_map_update[OF assms] by (simp add: findUnique_def update_broadcast_def)

lemma recipients_update_broadcast [simp]: "recipients (update_broadcast x f st) = recipients st"
  and contacts_update_broadcast [simp]: "contacts (update_broadcast x f st) = contacts st"
  by (simp_all add: update_broadcast_def)

lemma findUnique_update_recipient [simp]: "findUnique (update_recipient rid f st) bid = findUnique st bid"
  and broadcasts_update_recipient [simp]: "broadcasts (update_recipient rid f st) = broadcasts st"
  and contacts_update_recipient [simp]: "contacts (update_recipient rid f st) = contacts st"
  by (simp_all add: update_recipient_def findUnique_def)

lemma findUnique_queue [simp]: "findUnique (st\<lparr>queueOps := q\<rparr>) bid = findUnique st bid"
  by (simp add: findUnique_def)

lemma findUnique_queue_add [simp]: "findUnique (queue_add d j st) bid = findUnique st bid"
  by (simp add: findUnique_def queue_add_def)

subsection \<open>The control requests change nothing but statuses and the queue\<close>

lemma status_only_refl [simp]: "status_only st st"
  by (simp add: status_only_def)

lemma status_only_trans: "status_only a b \<Longrightarrow> status_only b c \<Longrightarrow> status_only a c"
  by (simp add: status_only_def)

lemma status_only_update:
  "status_only st (update_broadcast x (\<lambda>b. b\<lparr>b_status := s\<rparr>) st)"
  by (auto simp: status_only_def findUnique_update_broadcast option.map_comp comp_def
        intro!: option.map_cong)

lemma status_only_queue_add: "status_only st (queue_add d j st)"
  by (simp add: status_only_def queue_add_def)

lemma status_only_control: "status_only st (snd (control rq st t b))"
proof (cases rq)
  case SendNow
  then show ?thesis
    by (auto simp: send_def Let_def split: option.splits
          intro: status_only_trans[OF status_only_queue_add status_only_update])
next
  case Pause
  then show ?thesis
    by (auto simp: pause_def Let_def split: option.splits intro: status_only_update)
next
  case Resume
  then show ?thesis
    by (auto simp: resume_def Let_def split: option.splits
          intro: status_only_trans[OF status_only_queue_add status_only_update])
next
  case Cancel
  have q: "status_only st (st\<lparr>queueOps := queueOps st @ [QueueRemoveJobs (job_id b)]\<rparr>)"
    by (simp add: status_only_def)
  from Cancel show ?thesis
    by (auto simp: cancel_def Let_def split: option.splits
          intro: status_only_trans[OF q status_only_update])
qed

lemma serve_status_only: "status_only st (fst (serve qs st))"
proof (induction qs arbitrary: st)
  case Nil
  then show ?case by simp
next
  case (Cons q qs)
  show ?case
    using status_only_trans[OF status_only_control Cons.IH]
    by (simp add: Let_def)
qed


lemma status_only_fields:
  assumes "status_only st st'"
  shows "exists_b st' bid = exists_b st bid" "sent_of st' bid = sent_of st bid"
    "failed_of st' bid = failed_of st bid" "total_of st' bid = total_of st bid"
proof -
  have eq: "map_option (\<lambda>b. b\<lparr>b_status := DRAFT\<rparr>) (findUnique st' bid)
          = map_option (\<lambda>b. b\<lparr>b_status := DRAFT\<rparr>) (findUnique st bid)"
    using assms by (simp add: status_only_def)
  show "exists_b st' bid = exists_b st bid"
    using eq by (cases "findUnique st bid"; cases "findUnique st' bid") (auto simp: exists_b_def)
  show "sent_of st' bid = sent_of st bid"
    using eq by (cases "findUnique st bid"; cases "findUnique st' bid")
      (auto simp: sent_of_def dest: arg_cong[where f = sentCount])
  show "failed_of st' bid = failed_of st bid"
    using eq by (cases "findUnique st bid"; cases "findUnique st' bid")
      (auto simp: failed_of_def dest: arg_cong[where f = failedCount])
  show "total_of st' bid = total_of st bid"
    using eq by (cases "findUnique st bid"; cases "findUnique st' bid")
      (auto simp: total_of_def dest: arg_cong[where f = totalRecipients])
qed

lemma status_only_rows: "status_only st st' \<Longrightarrow> recipients st' = recipients st"
  by (simp add: status_only_def)

lemma status_only_pending: "status_only st st' \<Longrightarrow> pendingCount st' bid = pendingCount st bid"
  by (simp add: status_only_def pendingCount_def pending_rows_def)

lemma status_only_tally: "status_only st x \<Longrightarrow> tally x bid = tally st bid"
  by (simp add: tally_def status_only_fields status_only_pending)

lemma row_status_status_only: "status_only st st' \<Longrightarrow> row_status st' x = row_status st x"
  by (simp add: status_only_def row_status_def)

lemma started_status_only: "status_only st (started sc st job)"
  unfolding started_def
  by (rule status_only_trans[OF serve_status_only status_only_update])

subsection \<open>Recording the results of a batch\<close>

lemma r_id_row_update [simp]: "r_id (row_update res r) = r_id r"
  and r_broadcastId_row_update [simp]: "r_broadcastId (row_update res r) = r_broadcastId r"
  and r_status_row_update: "r_status (row_update res r) = (if fulfilled_ok res then SENT else ROW_FAILED)"
  by (simp_all add: row_update_def)

lemma map_r_id_update [simp]:
  "map r_id (recipients (update_recipient rid (row_update res) st)) = map r_id (recipients st)"
  by (simp add: update_recipient_def comp_def)

lemma recipient_exists_iff: "recipient_exists st x \<longleftrightarrow> x \<in> set (map r_id (recipients st))"
  by (auto simp: recipient_exists_def)

lemma recipient_exists_update [simp]:
  "recipient_exists (update_recipient rid (row_update res) st) x = recipient_exists st x"
  unfolding recipient_exists_iff by (simp only: map_r_id_update)

lemma record_results_eq:
  assumes "\<forall>p \<in> set ps. recipient_exists st (r_id (fst p))"
  shows "record_results ps s f st =
           (None, s + count_ok ps, f + count_failed ps, apply_updates ps st, row_writes ps st)"
  using assms
proof (induction ps arbitrary: s f st)
  case Nil
  then show ?case by (simp add: count_ok_def count_failed_def)
next
  case (Cons p ps)
  obtain r res where p: "p = (r, res)" by (cases p)
  let ?st1 = "update_recipient (r_id r) (row_update res) st"
  have ex: "\<forall>q \<in> set ps. recipient_exists ?st1 (r_id (fst q))"
    using Cons.prems by simp
  have here: "recipient_exists st (r_id r)" using Cons.prems p by simp
  show ?case
    using Cons.IH[OF ex] here
    by (simp add: p count_ok_def count_failed_def Let_def)
qed

lemma count_ok_failed: "count_ok ps + count_failed ps = int (length ps)"
  unfolding count_ok_def count_failed_def
  using sum_length_filter_compl[of "\<lambda>p. fulfilled_ok (snd p)" ps] by simp

lemma count_nonneg: "0 \<le> count_ok ps" "0 \<le> count_failed ps"
  by (simp_all add: count_ok_def count_failed_def)

lemma apply_updates_frame [simp]:
  "broadcasts (apply_updates ps st) = broadcasts st"
  "contacts (apply_updates ps st) = contacts st"
  "findUnique (apply_updates ps st) bid = findUnique st bid"
  "map r_id (recipients (apply_updates ps st)) = map r_id (recipients st)"
  by (induction ps arbitrary: st) simp_all

lemma update_keeps_others:
  "r \<in> set (recipients st) \<Longrightarrow> r_id r \<noteq> rid \<Longrightarrow> r \<in> set (recipients (update_recipient rid g st))"
  by (force simp: update_recipient_def)

lemma apply_updates_keeps_others:
  "r \<in> set (recipients st) \<Longrightarrow> r_id r \<notin> set (map (\<lambda>p. r_id (fst p)) ps)
     \<Longrightarrow> r \<in> set (recipients (apply_updates ps st))"
proof (induction ps arbitrary: st)
  case Nil
  then show ?case by simp
next
  case (Cons p ps)
  from Cons.prems have "r \<in> set (recipients (update_recipient (r_id (fst p)) (row_update (snd p)) st))"
    by (intro update_keeps_others) auto
  with Cons show ?case by simp
qed

lemma find_row_update:
  assumes "\<And>r. r_id (g r) = r_id r"
  shows "find (\<lambda>r. r_id r = x) (map (\<lambda>r. if r_id r = rid then g r else r) rows)
       = map_option (\<lambda>r. if r_id r = rid then g r else r) (find (\<lambda>r. r_id r = x) rows)"
  using assms by (induction rows) auto

lemma row_status_update:
  "row_status (update_recipient rid (row_update res) st) x =
     (if x = rid then map_option (\<lambda>_. if fulfilled_ok res then SENT else ROW_FAILED) (row_status st x)
      else row_status st x)"
proof -
  have f: "find (\<lambda>r. r_id r = x) (recipients (update_recipient rid (row_update res) st))
      = map_option (\<lambda>r. if r_id r = rid then row_update res r else r) (find (\<lambda>r. r_id r = x) (recipients st))"
    unfolding update_recipient_def using find_row_update[of "row_update res" x rid "recipients st"]
    by simp
  show ?thesis
  proof (cases "find (\<lambda>r. r_id r = x) (recipients st)")
    case None
    then show ?thesis using f by (auto simp: row_status_def)
  next
    case (Some r)
    then have "r_id r = x" by (auto simp: find_Some_iff)
    then show ?thesis using f Some by (auto simp: row_status_def r_status_row_update)
  qed
qed

lemma row_status_exists: "recipient_exists st x \<Longrightarrow> \<exists>s. row_status st x = Some s"
  by (cases "find (\<lambda>r. r_id r = x) (recipients st)")
     (auto simp: row_status_def recipient_exists_def find_None_iff)

lemma row_status_apply_other:
  "x \<notin> set (map (\<lambda>p. r_id (fst p)) ps) \<Longrightarrow> row_status (apply_updates ps st) x = row_status st x"
  by (induction ps arbitrary: st) (auto simp: row_status_update)

lemma row_status_apply:
  assumes "distinct (map (\<lambda>p. r_id (fst p)) ps)" and "p \<in> set ps"
    and "recipient_exists st (r_id (fst p))"
  shows "row_status (apply_updates ps st) (r_id (fst p))
       = Some (if fulfilled_ok (snd p) then SENT else ROW_FAILED)"
  using assms
proof (induction ps arbitrary: st)
  case Nil
  then show ?case by simp
next
  case (Cons q ps)
  let ?st1 = "update_recipient (r_id (fst q)) (row_update (snd q)) st"
  show ?case
  proof (cases "p = q")
    case True
    then have notin: "r_id (fst p) \<notin> set (map (\<lambda>p. r_id (fst p)) ps)"
      using Cons.prems(1) by simp
    obtain s where "row_status st (r_id (fst p)) = Some s"
      using row_status_exists[OF Cons.prems(3)] by blast
    then show ?thesis
      using True row_status_apply_other[OF notin, of ?st1]
      by (simp add: row_status_update)
  next
    case False
    then have "p \<in> set ps" using Cons.prems(2) by simp
    moreover have "distinct (map (\<lambda>p. r_id (fst p)) ps)" using Cons.prems(1) by simp
    moreover have "recipient_exists ?st1 (r_id (fst p))" using Cons.prems(3) by simp
    ultimately show ?thesis using Cons.IH[of ?st1] by simp
  qed
qed

lemma row_status_update_broadcast [simp]: "row_status (update_broadcast b g st) x = row_status st x"
  by (simp add: row_status_def)

subsection \<open>Counting pending rows\<close>

lemma pendingCount_nonneg: "0 \<le> pendingCount st bid"
  by (simp add: pendingCount_def)

lemma pending_update_le:
  "pendingCount (update_recipient rid (row_update res) st) bid \<le> pendingCount st bid"
proof -
  have "length (filter (\<lambda>r. r_broadcastId r = bid \<and> r_status r = PENDING)
           (map (\<lambda>r. if r_id r = rid then row_update res r else r) rows))
      \<le> length (filter (\<lambda>r. r_broadcastId r = bid \<and> r_status r = PENDING) rows)" for rows
    by (induction rows) (auto simp: r_status_row_update)
  then show ?thesis
    by (simp add: pendingCount_def pending_rows_def update_recipient_def)
qed

lemma pending_update_exact:
  assumes "distinct (map r_id (recipients st))" and "r \<in> set (recipients st)"
    and "r_broadcastId r = bid" and "r_status r = PENDING"
  shows "pendingCount (update_recipient (r_id r) (row_update res) st) bid = pendingCount st bid - 1"
proof -
  have "distinct (map r_id rows) \<Longrightarrow> r \<in> set rows \<Longrightarrow>
        int (length (filter (\<lambda>r. r_broadcastId r = bid \<and> r_status r = PENDING)
           (map (\<lambda>x. if r_id x = r_id r then row_update res x else x) rows)))
      = int (length (filter (\<lambda>r. r_broadcastId r = bid \<and> r_status r = PENDING) rows)) - 1" for rows
  proof (induction rows)
    case Nil
    then show ?case by simp
  next
    case (Cons a rows)
    show ?case
    proof (cases "a = r")
      case True
      then have "r_id r \<notin> set (map r_id rows)" using Cons.prems(1) by simp
      then have "map (\<lambda>x. if r_id x = r_id r then row_update res x else x) rows = rows"
        by (intro map_idI) (force simp: image_iff)
      then show ?thesis using True assms(3,4) by (simp add: r_status_row_update)
    next
      case False
      then have "r \<in> set rows" using Cons.prems(2) by simp
      moreover have "r_id a \<noteq> r_id r" using Cons.prems(1) \<open>r \<in> set rows\<close> by auto
      ultimately show ?thesis using Cons by simp
    qed
  qed
  then show ?thesis using assms(1,2)
    by (simp add: pendingCount_def pending_rows_def update_recipient_def)
qed

lemma pending_apply_le: "pendingCount (apply_updates ps st) bid \<le> pendingCount st bid"
proof (induction ps arbitrary: st)
  case Nil
  then show ?case by simp
next
  case (Cons p ps)
  show ?case
    using Cons.IH[of "update_recipient (r_id (fst p)) (row_update (snd p)) st"]
      pending_update_le[of "r_id (fst p)" "snd p" st bid]
    by simp
qed

lemma pending_apply_exact:
  assumes "distinct (map r_id (recipients st))"
    and "distinct (map (\<lambda>p. r_id (fst p)) ps)"
    and "\<forall>p \<in> set ps. fst p \<in> set (recipients st) \<and> r_broadcastId (fst p) = bid \<and> r_status (fst p) = PENDING"
  shows "pendingCount (apply_updates ps st) bid = pendingCount st bid - int (length ps)"
  using assms
proof (induction ps arbitrary: st)
  case Nil
  then show ?case by simp
next
  case (Cons p ps)
  let ?st1 = "update_recipient (r_id (fst p)) (row_update (snd p)) st"
  have one: "pendingCount ?st1 bid = pendingCount st bid - 1"
    using Cons.prems by (intro pending_update_exact) auto
  have d: "distinct (map r_id (recipients ?st1))"
    using Cons.prems(1) by (simp only: map_r_id_update)
  have rest: "\<forall>q \<in> set ps. fst q \<in> set (recipients ?st1) \<and> r_broadcastId (fst q) = bid \<and> r_status (fst q) = PENDING"
  proof
    fix q assume q: "q \<in> set ps"
    then have "r_id (fst q) \<noteq> r_id (fst p)" using Cons.prems(2) by (force simp: image_iff)
    moreover have "fst q \<in> set (recipients st)" using Cons.prems(3) q by simp
    ultimately have "fst q \<in> set (recipients ?st1)" by (intro update_keeps_others)
    then show "fst q \<in> set (recipients ?st1) \<and> r_broadcastId (fst q) = bid \<and> r_status (fst q) = PENDING"
      using Cons.prems(3) q by simp
  qed
  have "pendingCount (apply_updates ps ?st1) bid = pendingCount ?st1 bid - int (length ps)"
    using Cons.IH[OF d _ rest] Cons.prems(2) by simp
  then show ?case using one by simp
qed

lemma pending_update_broadcast [simp]:
  "pendingCount (update_broadcast x g st) bid = pendingCount st bid"
  by (simp add: pendingCount_def pending_rows_def)

lemma row_writes_events:
  "e \<in> set (row_writes ps st) \<Longrightarrow>
     \<exists>rid x. e = RowWrite rid x \<and> broadcasts x = broadcasts st \<and>
             (\<forall>bid. pendingCount x bid \<le> pendingCount st bid)"
proof (induction ps arbitrary: st)
  case Nil
  then show ?case by simp
next
  case (Cons p ps)
  let ?st1 = "update_recipient (r_id (fst p)) (row_update (snd p)) st"
  from Cons.prems have "e = RowWrite (r_id (fst p)) ?st1 \<or> e \<in> set (row_writes ps ?st1)" by simp
  then show ?case
  proof
    assume "e = RowWrite (r_id (fst p)) ?st1"
    then show ?thesis using pending_update_le by auto
  next
    assume "e \<in> set (row_writes ps ?st1)"
    from Cons.IH[OF this] obtain rid x where
      x: "e = RowWrite rid x" "broadcasts x = broadcasts ?st1" "\<forall>bid. pendingCount x bid \<le> pendingCount ?st1 bid"
      by blast
    have "\<forall>bid. pendingCount x bid \<le> pendingCount st bid"
      using x(3) pending_update_le[of "r_id (fst p)" "snd p" st] by (meson order_trans)
    then show ?thesis using x by auto
  qed
qed


subsection \<open>Counting recorded rows\<close>



lemma rowCount_update_broadcast [simp]:
  "rowCount (update_broadcast bid' f st) bid X = rowCount st bid X"
  by (simp add: rowCount_def)



subsection \<open>Slices\<close>

lemma js_slice_step:
  assumes "slice_rel bs (length xs) m i" and "i < int (length xs)"
  shows "\<exists>l. js_slice xs i (i + bs) = take l (drop m xs) \<and> m + l \<le> length xs \<and>
             slice_rel bs (length xs) (m + l) (i + bs)"
proof -
  consider (pos) "0 < bs" | (zero) "bs = 0" | (neg0) "bs < 0" "i = 0" "m = 0" | (neg) "bs < 0" "i < 0"
    using assms(1) by (auto simp: slice_rel_def split: if_splits)
  then show ?thesis
  proof cases
    case pos
    then have i: "0 \<le> i" "m = nat i" using assms by (auto simp: slice_rel_def)
    let ?l = "nat (min (i + bs) (int (length xs)) - i)"
    have "js_slice xs i (i + bs) = take ?l (drop m xs)"
      using pos i assms(2) by (simp add: js_slice_def Let_def min_def)
    moreover have "m + ?l \<le> length xs" using pos i assms(2) by (simp add: min_def) linarith
    moreover have "slice_rel bs (length xs) (m + ?l) (i + bs)"
      using pos i assms(2) by (auto simp: slice_rel_def min_def)
    ultimately show ?thesis by blast
  next
    case zero
    have "js_slice xs i (i + bs) = take 0 (drop m xs)"
      using zero by (simp add: js_slice_def Let_def)
    moreover have "slice_rel bs (length xs) (m + 0) (i + bs)" using assms(1) zero by (simp add: slice_rel_def)
    moreover have "m + 0 \<le> length xs" using assms(1) by (simp add: slice_rel_def)
    ultimately show ?thesis by blast
  next
    case neg0
    let ?l = "nat (max (int (length xs) + bs) 0)"
    have "js_slice xs i (i + bs) = take ?l (drop m xs)"
      using neg0 by (simp add: js_slice_def Let_def)
    moreover have "m + ?l \<le> length xs" using neg0 by (simp add: max_def) linarith
    moreover have "slice_rel bs (length xs) (m + ?l) (i + bs)"
      using neg0 by (simp add: slice_rel_def max_def) linarith
    ultimately show ?thesis by blast
  next
    case neg
    have "js_slice xs i (i + bs) = take 0 (drop m xs)"
      using neg by (simp add: js_slice_def Let_def max_def)
    moreover have "slice_rel bs (length xs) (m + 0) (i + bs)"
      using assms(1) neg by (simp add: slice_rel_def)
    moreover have "m + 0 \<le> length xs" using assms(1) by (simp add: slice_rel_def)
    ultimately show ?thesis by blast
  qed
qed

lemma take_drop_join:
  "take l (drop m xs) @ take l' (drop (m + l) xs) = take (l + l') (drop m xs)"
  by (metis add.commute drop_drop take_add)

subsection \<open>One pass through the loop\<close>

lemma fields_update_counts:
  assumes "exists_b st bid"
  shows "exists_b (update_broadcast bid (\<lambda>b. b\<lparr>sentCount := s, failedCount := f\<rparr>) st) bid"
    "sent_of (update_broadcast bid (\<lambda>b. b\<lparr>sentCount := s, failedCount := f\<rparr>) st) bid = s"
    "failed_of (update_broadcast bid (\<lambda>b. b\<lparr>sentCount := s, failedCount := f\<rparr>) st) bid = f"
    "total_of (update_broadcast bid (\<lambda>b. b\<lparr>sentCount := s, failedCount := f\<rparr>) st) bid = total_of st bid"
proof -
  obtain b where b: "findUnique st bid = Some b" using assms by (auto simp: exists_b_def)
  then have "b_id b = bid" by (auto simp: findUnique_def find_Some_iff)
  then show "exists_b (update_broadcast bid (\<lambda>b. b\<lparr>sentCount := s, failedCount := f\<rparr>) st) bid"
    "sent_of (update_broadcast bid (\<lambda>b. b\<lparr>sentCount := s, failedCount := f\<rparr>) st) bid = s"
    "failed_of (update_broadcast bid (\<lambda>b. b\<lparr>sentCount := s, failedCount := f\<rparr>) st) bid = f"
    "total_of (update_broadcast bid (\<lambda>b. b\<lparr>sentCount := s, failedCount := f\<rparr>) st) bid = total_of st bid"
    using b by (simp_all add: exists_b_def sent_of_def failed_of_def total_of_def findUnique_update_broadcast)
qed

lemma fields_apply_updates [simp]:
  "exists_b (apply_updates ps st) bid = exists_b st bid"
  "sent_of (apply_updates ps st) bid = sent_of st bid"
  "failed_of (apply_updates ps st) bid = failed_of st bid"
  "total_of (apply_updates ps st) bid = total_of st bid"
  by (simp_all add: exists_b_def sent_of_def failed_of_def total_of_def)

lemma fields_same_broadcasts:
  assumes "broadcasts x = broadcasts y"
  shows "exists_b x bid = exists_b y bid" "sent_of x bid = sent_of y bid"
    "failed_of x bid = failed_of y bid" "total_of x bid = total_of y bid"
  using assms by (simp_all add: exists_b_def sent_of_def failed_of_def total_of_def findUnique_def)

lemma fields_update_completed:
  assumes "exists_b st bid"
  shows "exists_b (update_broadcast bid (\<lambda>b. b\<lparr>b_status := COMPLETED, sentCount := s, failedCount := f\<rparr>) st) bid"
    "sent_of (update_broadcast bid (\<lambda>b. b\<lparr>b_status := COMPLETED, sentCount := s, failedCount := f\<rparr>) st) bid = s"
    "failed_of (update_broadcast bid (\<lambda>b. b\<lparr>b_status := COMPLETED, sentCount := s, failedCount := f\<rparr>) st) bid = f"
    "total_of (update_broadcast bid (\<lambda>b. b\<lparr>b_status := COMPLETED, sentCount := s, failedCount := f\<rparr>) st) bid = total_of st bid"
proof -
  obtain b where b: "findUnique st bid = Some b" using assms by (auto simp: exists_b_def)
  then have "b_id b = bid" by (auto simp: findUnique_def find_Some_iff)
  then show "exists_b (update_broadcast bid (\<lambda>b. b\<lparr>b_status := COMPLETED, sentCount := s, failedCount := f\<rparr>) st) bid"
    "sent_of (update_broadcast bid (\<lambda>b. b\<lparr>b_status := COMPLETED, sentCount := s, failedCount := f\<rparr>) st) bid = s"
    "failed_of (update_broadcast bid (\<lambda>b. b\<lparr>b_status := COMPLETED, sentCount := s, failedCount := f\<rparr>) st) bid = f"
    "total_of (update_broadcast bid (\<lambda>b. b\<lparr>b_status := COMPLETED, sentCount := s, failedCount := f\<rparr>) st) bid = total_of st bid"
    using b by (simp_all add: exists_b_def sent_of_def failed_of_def total_of_def findUnique_update_broadcast)
qed

lemma findUnique_status_update:
  assumes "exists_b st bid"
  shows "map_option b_status (findUnique (update_broadcast bid
            (\<lambda>b. b\<lparr>b_status := COMPLETED, sentCount := s, failedCount := f\<rparr>) st) bid) = Some COMPLETED"
proof -
  obtain b where b: "findUnique st bid = Some b" using assms by (auto simp: exists_b_def)
  then have "b_id b = bid" by (auto simp: findUnique_def find_Some_iff)
  then show ?thesis using b by (simp add: findUnique_update_broadcast)
qed

lemma serve_pair: "serve qs st = (fst (serve qs st), snd (serve qs st))"
  by simp

lemma iteration_stop:
  assumes "i < int (length (fetched cx))"
    and "map_option b_status (findUnique (fst (serve (sched cx k) st)) (broadcastId cx)) = Some PAUSED \<or>
         map_option b_status (findUnique (fst (serve (sched cx k) st)) (broadcastId cx)) = Some CANCELLED"
  shows "iteration cx k i s f st =
     Exit (Returned (Stopped (status_text (map_option b_status
               (findUnique (fst (serve (sched cx k) st)) (broadcastId cx)))) s),
           fst (serve (sched cx k) st),
           snd (serve (sched cx k) st) @
             [StatusRead (map_option b_status (findUnique (fst (serve (sched cx k) st)) (broadcastId cx)))])"
  using assms by (simp add: iteration_def split_def Let_def)

lemma iteration_finish:
  assumes "\<not> i < int (length (fetched cx))" and "exists_b st (broadcastId cx)"
  shows "iteration cx k i s f st =
     Exit (Returned (Finished s f),
           update_broadcast (broadcastId cx)
             (\<lambda>b. b\<lparr>b_status := COMPLETED, sentCount := s, failedCount := f\<rparr>)
             (fst (serve (sched cx k) st)),
           snd (serve (sched cx k) st) @
             [StatusWrite (update_broadcast (broadcastId cx)
                (\<lambda>b. b\<lparr>b_status := COMPLETED, sentCount := s, failedCount := f\<rparr>)
                (fst (serve (sched cx k) st)))])"
proof -
  have "exists_b (fst (serve (sched cx k) st)) (broadcastId cx)"
    using assms(2) status_only_fields(1)[OF serve_status_only] by simp
  then obtain b where "findUnique (fst (serve (sched cx k) st)) (broadcastId cx) = Some b"
    by (auto simp: exists_b_def)
  then show ?thesis using assms(1) by (simp add: iteration_def split_def Let_def)
qed

lemma batch_ps_ids [simp]: "map (\<lambda>p. r_id (fst p)) (batch_ps cx batch) = map (\<lambda>rc. r_id (fst rc)) batch"
  by (simp add: batch_ps_def send_batch_def zip_map_map zip_same_conv_map comp_def)

lemma batch_ps_length [simp]: "length (batch_ps cx batch) = length batch"
  by (simp add: batch_ps_def send_batch_def)

lemma batch_ps_fst: "p \<in> set (batch_ps cx batch) \<Longrightarrow> \<exists>rc \<in> set batch. fst p = fst rc"
  by (force simp: batch_ps_def send_batch_def zip_map_map zip_same_conv_map)

lemma batch_ps_recorded:
  assumes "rc \<in> set batch"
  shows "\<exists>p \<in> set (batch_ps cx batch). fst p = fst rc \<and>
           (if fulfilled_ok (snd p) then SENT else ROW_FAILED) = recorded cx rc"
proof -
  have "(fst rc, Fulfilled (sendMessage (gw cx (r_id (fst rc))) (tenantId cx) (broadcast cx) (snd rc)))
          \<in> set (batch_ps cx batch)"
    using assms by (force simp: batch_ps_def send_batch_def zip_map_map zip_same_conv_map)
  then show ?thesis by (force simp: recorded_def fulfilled_ok_def)
qed

lemma iteration_next:
  assumes inv: "loop_inv cx m i s f st"
    and lt: "i < int (length (fetched cx))"
    and go: "\<not> (map_option b_status (findUnique (fst (serve (sched cx k) st)) (broadcastId cx)) = Some PAUSED \<or>
         map_option b_status (findUnique (fst (serve (sched cx k) st)) (broadcastId cx)) = Some CANCELLED)"
  obtains l where "m + l \<le> length (fetched cx)"
    and "iteration cx k i s f st =
       Next (s + count_ok (batch_ps cx (take l (drop m (fetched cx)))))
            (f + count_failed (batch_ps cx (take l (drop m (fetched cx)))))
            (after_batch cx (take l (drop m (fetched cx))) s f (fst (serve (sched cx k) st)))
            (snd (serve (sched cx k) st) @
             [StatusRead (map_option b_status (findUnique (fst (serve (sched cx k) st)) (broadcastId cx)))] @
             batch_events cx (take l (drop m (fetched cx))) s f (fst (serve (sched cx k) st)) @
             (if i + batchSize' cx < int (length (fetched cx)) then [Slept (batchDelayMs' cx)] else []))"
    and "loop_inv cx (m + l) (i + batchSize' cx)
            (s + count_ok (batch_ps cx (take l (drop m (fetched cx)))))
            (f + count_failed (batch_ps cx (take l (drop m (fetched cx)))))
            (after_batch cx (take l (drop m (fetched cx))) s f (fst (serve (sched cx k) st)))"
proof -
  let ?st0 = "fst (serve (sched cx k) st)"
  let ?bid = "broadcastId cx"
  have so: "status_only st ?st0" by (rule serve_status_only)
  have rows0: "recipients ?st0 = recipients st" using so by (rule status_only_rows)
  from inv have rel: "slice_rel (batchSize' cx) (length (fetched cx)) m i"
    and dF: "distinct (map (\<lambda>rc. r_id (fst rc)) (fetched cx))"
    and dR: "distinct (map r_id (recipients st))"
    and pend: "\<forall>rc \<in> set (drop m (fetched cx)).
        fst rc \<in> set (recipients st) \<and> r_broadcastId (fst rc) = ?bid \<and> r_status (fst rc) = PENDING"
    and ex: "exists_b st ?bid" and cs: "sent_of st ?bid = s" and cf: "failed_of st ?bid = f"
    by (simp_all add: loop_inv_def)
  from js_slice_step[OF rel lt] obtain l where
    sl: "js_slice (fetched cx) i (i + batchSize' cx) = take l (drop m (fetched cx))"
    and ml: "m + l \<le> length (fetched cx)"
    and rel': "slice_rel (batchSize' cx) (length (fetched cx)) (m + l) (i + batchSize' cx)"
    by blast
  let ?batch = "take l (drop m (fetched cx))"
  let ?ps = "batch_ps cx ?batch"
  let ?st1 = "apply_updates ?ps ?st0"
  let ?st2 = "after_batch cx ?batch s f ?st0"
  have inbatch: "\<forall>rc \<in> set ?batch. fst rc \<in> set (recipients st)"
    using pend by (meson in_set_takeD)
  have allex: "\<forall>p \<in> set ?ps. recipient_exists ?st0 (r_id (fst p))"
  proof
    fix p assume "p \<in> set ?ps"
    then obtain rc where "rc \<in> set ?batch" "fst p = fst rc" using batch_ps_fst by blast
    then show "recipient_exists ?st0 (r_id (fst p))"
      using inbatch rows0 by (auto simp: recipient_exists_def)
  qed
  have rr: "record_results ?ps s f ?st0 =
     (None, s + count_ok ?ps, f + count_failed ?ps, ?st1, row_writes ?ps ?st0)"
    by (rule record_results_eq[OF allex])
  have ex0: "exists_b ?st0 ?bid" using ex status_only_fields(1)[OF so] by simp
  then have ex1: "exists_b ?st1 ?bid" by simp
  then obtain b1 where b1: "findUnique ?st1 ?bid = Some b1" by (auto simp: exists_b_def)
  have it: "iteration cx k i s f st =
       Next (s + count_ok ?ps) (f + count_failed ?ps) ?st2
            (snd (serve (sched cx k) st) @
             [StatusRead (map_option b_status (findUnique ?st0 ?bid))] @
             batch_events cx ?batch s f ?st0 @
             (if i + batchSize' cx < int (length (fetched cx)) then [Slept (batchDelayMs' cx)] else []))"
    using lt go rr b1 sl
    by (simp add: iteration_def split_def Let_def batch_ps_def[symmetric] after_batch_def batch_events_def)
  have rows2: "map r_id (recipients ?st2) = map r_id (recipients st)"
    using rows0 by (simp add: after_batch_def)
  have keep: "\<forall>rc \<in> set (drop (m + l) (fetched cx)).
        fst rc \<in> set (recipients ?st2) \<and> r_broadcastId (fst rc) = ?bid \<and> r_status (fst rc) = PENDING"
  proof
    fix rc assume rc: "rc \<in> set (drop (m + l) (fetched cx))"
    have split: "drop m (fetched cx) = ?batch @ drop (m + l) (fetched cx)"
      by (metis add.commute append_take_drop_id drop_drop)
    then have in_m: "rc \<in> set (drop m (fetched cx))" using rc by (metis Un_iff set_append)
    have "distinct (map (\<lambda>rc. r_id (fst rc)) (drop m (fetched cx)))"
      using dF by (simp add: distinct_drop drop_map[symmetric])
    then have "distinct (map (\<lambda>rc. r_id (fst rc)) ?batch @ map (\<lambda>rc. r_id (fst rc)) (drop (m + l) (fetched cx)))"
      using split by (metis map_append)
    then have "r_id (fst rc) \<notin> set (map (\<lambda>rc. r_id (fst rc)) ?batch)"
      using rc by (auto simp: image_iff)
    then have "r_id (fst rc) \<notin> set (map (\<lambda>p. r_id (fst p)) ?ps)" by simp
    moreover have "fst rc \<in> set (recipients ?st0)" using pend in_m rows0 by simp
    ultimately have "fst rc \<in> set (recipients ?st1)" by (rule apply_updates_keeps_others[rotated])
    then show "fst rc \<in> set (recipients ?st2) \<and> r_broadcastId (fst rc) = ?bid \<and> r_status (fst rc) = PENDING"
      using pend in_m by (simp add: after_batch_def)
  qed
  have inv': "loop_inv cx (m + l) (i + batchSize' cx) (s + count_ok ?ps) (f + count_failed ?ps) ?st2"
    unfolding loop_inv_def
    using rel' dF dR rows2 keep fields_update_counts[OF ex1]
    by (simp add: after_batch_def)
  show ?thesis using that[OF ml it inv'] .
qed

subsection \<open>Projections of the events\<close>

lemma proj_append [simp]:
  "gateway_calls (xs @ ys) = gateway_calls xs @ gateway_calls ys"
  "row_written (xs @ ys) = row_written xs @ row_written ys"
  "committed (xs @ ys) = committed xs @ committed ys"
  "boundaries (xs @ ys) = boundaries xs @ boundaries ys"
  by (simp_all add: gateway_calls_def row_written_def committed_def boundaries_def map_filter_def)

lemma proj_Nil [simp]:
  "gateway_calls [] = []" "row_written [] = []" "committed [] = []" "boundaries [] = []"
  by (simp_all add: gateway_calls_def row_written_def committed_def boundaries_def map_filter_def)

lemma proj_Cons [simp]:
  "gateway_calls (e # xs) = (case call_of e of None \<Rightarrow> gateway_calls xs | Some r \<Rightarrow> r # gateway_calls xs)"
  "row_written (e # xs) = (case write_of e of None \<Rightarrow> row_written xs | Some r \<Rightarrow> r # row_written xs)"
  "committed (e # xs) = (case store_of e of None \<Rightarrow> committed xs | Some r \<Rightarrow> r # committed xs)"
  "boundaries (e # xs) = (case boundary_of e of None \<Rightarrow> boundaries xs | Some r \<Rightarrow> r # boundaries xs)"
  by (simp_all add: gateway_calls_def row_written_def committed_def boundaries_def map_filter_def split: option.splits)

lemma serve_proj [simp]:
  "gateway_calls (snd (serve qs st)) = []"
  "row_written (snd (serve qs st)) = []"
  "boundaries (snd (serve qs st)) = []"
  by (induction qs arbitrary: st) (simp_all add: Let_def)

lemma serve_committed: "x \<in> set (committed (snd (serve qs st))) \<Longrightarrow> status_only st x"
proof (induction qs arbitrary: st)
  case Nil
  then show ?case by simp
next
  case (Cons q qs)
  let ?st1 = "snd (control (fst q) st (fst (snd q)) (snd (snd q)))"
  from Cons.prems have "x = ?st1 \<or> x \<in> set (committed (snd (serve qs ?st1)))"
    by (simp add: Let_def)
  then show ?case
    using status_only_control[of st "fst q" "fst (snd q)" "snd (snd q)"] Cons.IH[of ?st1]
    by (auto intro: status_only_trans)
qed

lemma serve_observed [simp]:
  "observed bid st ok (snd (serve qs st) @ evs) = observed bid (fst (serve qs st)) ok evs"
  by (induction qs arbitrary: st) (simp_all add: Let_def)

lemma calls_proj [simp]:
  "gateway_calls (map (\<lambda>rc. GatewayCall (r_id (fst rc))) batch) = map (\<lambda>rc. r_id (fst rc)) batch"
  "row_written (map (\<lambda>rc. GatewayCall (r_id (fst rc))) batch) = []"
  "committed (map (\<lambda>rc. GatewayCall (r_id (fst rc))) batch) = []"
  "boundaries (map (\<lambda>rc. GatewayCall (r_id (fst rc))) batch) = []"
  by (induction batch) simp_all

lemma calls_observed [simp]:
  "observed bid cur True (map (\<lambda>rc. GatewayCall (r_id (fst rc))) batch @ evs) = observed bid cur True evs"
  by (induction batch) simp_all

lemma row_writes_proj [simp]:
  "gateway_calls (row_writes ps st) = []"
  "row_written (row_writes ps st) = map (\<lambda>p. r_id (fst p)) ps"
  "boundaries (row_writes ps st) = []"
  by (induction ps arbitrary: st) simp_all

lemma row_writes_observed [simp]:
  "observed bid st True (row_writes ps st @ evs) = observed bid (apply_updates ps st) True evs"
  by (induction ps arbitrary: st) simp_all

lemma row_writes_committed:
  "x \<in> set (committed (row_writes ps st)) \<Longrightarrow>
     broadcasts x = broadcasts st \<and> (\<forall>bid. pendingCount x bid \<le> pendingCount st bid)"
proof -
  assume "x \<in> set (committed (row_writes ps st))"
  then obtain e where e: "e \<in> set (row_writes ps st)" "store_of e = Some x"
    by (auto simp: committed_def map_filter_def)
  from row_writes_events[OF e(1)] e(2) show ?thesis by auto
qed

lemma batch_events_proj [simp]:
  "gateway_calls (batch_events cx batch s f st0) = map (\<lambda>rc. r_id (fst rc)) batch"
  "row_written (batch_events cx batch s f st0) = map (\<lambda>rc. r_id (fst rc)) batch"
  "boundaries (batch_events cx batch s f st0) = [after_batch cx batch s f st0]"
  "committed (batch_events cx batch s f st0) =
     committed (row_writes (batch_ps cx batch) st0) @ [after_batch cx batch s f st0]"
  by (simp_all add: batch_events_def)

lemma batch_events_observed [simp]:
  "observed bid st0 True (batch_events cx batch s f st0 @ evs) =
     observed bid (after_batch cx batch s f st0) False evs"
  by (simp add: batch_events_def after_batch_def)

lemma sleep_proj [simp]:
  "gateway_calls (sleep_events cx i) = []" "row_written (sleep_events cx i) = []"
  "committed (sleep_events cx i) = []" "boundaries (sleep_events cx i) = []"
  by (simp_all add: sleep_events_def)

lemma sleep_observed [simp]: "observed bid cur ok (sleep_events cx i @ evs) = observed bid cur ok evs"
  by (simp add: sleep_events_def)


lemma sorted_wrt_all: "(\<And>x y. x \<in> set xs \<Longrightarrow> y \<in> set xs \<Longrightarrow> P x y) \<Longrightarrow> sorted_wrt P xs"
  by (induction xs) auto

subsection \<open>Induction over the iterations\<close>

text \<open>
  A property of the runs of the loop follows from four cases: the observation ends, the
  loop stops on a status read, the loop is over and the broadcast is completed, or a
  batch is sent and the loop goes on.
\<close>

lemma batch_loop_rule [consumes 1, case_names zero stop finish step]:
  assumes inv: "loop_inv cx m i s f st"
    and zero: "\<And>m i s f st. loop_inv cx m i s f st \<Longrightarrow> P m s f st (StillRunning, st, [])"
    and stop: "\<And>m i s f st k.
        \<lbrakk>loop_inv cx m i s f st; i < int (length (fetched cx)); stopping (read_status cx k st)\<rbrakk>
        \<Longrightarrow> P m s f st (Returned (Stopped (status_text (read_status cx k st)) s),
                fst (serve (sched cx k) st),
                snd (serve (sched cx k) st) @ [StatusRead (read_status cx k st)])"
    and finish: "\<And>m i s f st k.
        \<lbrakk>loop_inv cx m i s f st; \<not> i < int (length (fetched cx))\<rbrakk>
        \<Longrightarrow> P m s f st (Returned (Finished s f),
                update_broadcast (broadcastId cx)
                  (\<lambda>b. b\<lparr>b_status := COMPLETED, sentCount := s, failedCount := f\<rparr>)
                  (fst (serve (sched cx k) st)),
                snd (serve (sched cx k) st) @
                [StatusWrite (update_broadcast (broadcastId cx)
                  (\<lambda>b. b\<lparr>b_status := COMPLETED, sentCount := s, failedCount := f\<rparr>)
                  (fst (serve (sched cx k) st)))])"
    and step: "\<And>m i s f st k l out st' evs.
        \<lbrakk>loop_inv cx m i s f st; i < int (length (fetched cx)); \<not> stopping (read_status cx k st);
         m + l \<le> length (fetched cx);
         loop_inv cx (m + l) (i + batchSize' cx)
           (s + count_ok (batch_ps cx (batch_at cx m l)))
           (f + count_failed (batch_ps cx (batch_at cx m l)))
           (after_batch cx (batch_at cx m l) s f (fst (serve (sched cx k) st)));
         P (m + l) (s + count_ok (batch_ps cx (batch_at cx m l)))
           (f + count_failed (batch_ps cx (batch_at cx m l)))
           (after_batch cx (batch_at cx m l) s f (fst (serve (sched cx k) st)))
           (out, st', evs)\<rbrakk>
        \<Longrightarrow> P m s f st (out, st',
                (snd (serve (sched cx k) st) @ [StatusRead (read_status cx k st)] @
                 batch_events cx (batch_at cx m l) s f (fst (serve (sched cx k) st)) @
                 sleep_events cx i) @ evs)"
  shows "P m s f st (batch_loop n cx k i s f st)"
  using inv
proof (induction n arbitrary: m i s f st k)
  case 0
  then show ?case using zero[of m i s f st] by simp
next
  case (Suc n)
  show ?case
  proof (cases "i < int (length (fetched cx))")
    case False
    have ex: "exists_b st (broadcastId cx)" using Suc.prems by (simp add: loop_inv_def)
    show ?thesis
      using finish[OF Suc.prems False, of k] iteration_finish[OF False ex, of k s f]
      by simp
  next
    case True
    show ?thesis
    proof (cases "stopping (read_status cx k st)")
      case stp: True
      then have "map_option b_status (findUnique (fst (serve (sched cx k) st)) (broadcastId cx)) = Some PAUSED \<or>
         map_option b_status (findUnique (fst (serve (sched cx k) st)) (broadcastId cx)) = Some CANCELLED"
        by (simp add: stopping_def read_status_def)
      from iteration_stop[OF True this, of s f] stop[OF Suc.prems True stp]
      show ?thesis by (simp add: read_status_def)
    next
      case go: False
      then have go': "\<not> (map_option b_status (findUnique (fst (serve (sched cx k) st)) (broadcastId cx)) = Some PAUSED \<or>
         map_option b_status (findUnique (fst (serve (sched cx k) st)) (broadcastId cx)) = Some CANCELLED)"
        by (simp add: stopping_def read_status_def)
      from iteration_next[OF Suc.prems True go'] obtain l where
        ml: "m + l \<le> length (fetched cx)"
        and it: "iteration cx k i s f st =
           Next (s + count_ok (batch_ps cx (take l (drop m (fetched cx)))))
            (f + count_failed (batch_ps cx (take l (drop m (fetched cx)))))
            (after_batch cx (take l (drop m (fetched cx))) s f (fst (serve (sched cx k) st)))
            (snd (serve (sched cx k) st) @
             [StatusRead (map_option b_status (findUnique (fst (serve (sched cx k) st)) (broadcastId cx)))] @
             batch_events cx (take l (drop m (fetched cx))) s f (fst (serve (sched cx k) st)) @
             (if i + batchSize' cx < int (length (fetched cx)) then [Slept (batchDelayMs' cx)] else []))"
        and inv': "loop_inv cx (m + l) (i + batchSize' cx)
            (s + count_ok (batch_ps cx (take l (drop m (fetched cx)))))
            (f + count_failed (batch_ps cx (take l (drop m (fetched cx)))))
            (after_batch cx (take l (drop m (fetched cx))) s f (fst (serve (sched cx k) st)))"
        by blast
      let ?s1 = "s + count_ok (batch_ps cx (batch_at cx m l))"
      let ?f1 = "f + count_failed (batch_ps cx (batch_at cx m l))"
      let ?st2 = "after_batch cx (batch_at cx m l) s f (fst (serve (sched cx k) st))"
      obtain out st' evs where r: "batch_loop n cx (Suc k) (i + batchSize' cx) ?s1 ?f1 ?st2 = (out, st', evs)"
        by (cases "batch_loop n cx (Suc k) (i + batchSize' cx) ?s1 ?f1 ?st2")
      have inv2: "loop_inv cx (m + l) (i + batchSize' cx) ?s1 ?f1 ?st2"
        using inv' by (simp add: batch_at_def)
      have "P (m + l) ?s1 ?f1 ?st2 (out, st', evs)"
        using Suc.IH[OF inv2, of "Suc k"] r by simp
      from step[OF Suc.prems True go ml inv2 this]
      show ?thesis using it r
        by (simp add: batch_at_def read_status_def sleep_events_def)
    qed
  qed
qed

lemma loop_rows:
  assumes "loop_inv cx m i s f st"
  shows "rows_ok cx m st (batch_loop n cx k i s f st)"
  using assms
proof (induction rule: batch_loop_rule[where P = "\<lambda>m s f st r. rows_ok cx m st r"])
  case (zero m i s f st)
  then have "m \<le> length (fetched cx)" "\<forall>rc \<in> set (drop m (fetched cx)). fst rc \<in> set (recipients st)"
    by (simp_all add: loop_inv_def slice_rel_def)
  then show ?case by (auto simp: rows_ok_def intro!: exI[of _ 0])
next
  case (stop m i s f st k)
  have so: "status_only st (fst (serve (sched cx k) st))" by (rule serve_status_only)
  have m: "m \<le> length (fetched cx)" using stop(1) by (simp add: loop_inv_def slice_rel_def)
  have rows: "recipients (fst (serve (sched cx k) st)) = recipients st"
    using so by (rule status_only_rows)
  have pend: "\<forall>rc \<in> set (drop m (fetched cx)). fst rc \<in> set (recipients st)"
    using stop(1) by (simp add: loop_inv_def)
  show ?case
    unfolding rows_ok_def
    using stop(3) m rows pend row_status_status_only[OF so]
    by (auto simp: read_status_def intro!: exI[of _ 0])
next
  case (finish m i s f st k)
  have so: "status_only st (fst (serve (sched cx k) st))" by (rule serve_status_only)
  have m: "m = length (fetched cx)" using finish by (simp add: loop_inv_def slice_rel_def)
  have ex: "exists_b (fst (serve (sched cx k) st)) (broadcastId cx)"
    using finish(1) status_only_fields(1)[OF so] by (simp add: loop_inv_def)
  have rows: "recipients (fst (serve (sched cx k) st)) = recipients st"
    using so by (rule status_only_rows)
  show ?case
    unfolding rows_ok_def
    using m rows row_status_status_only[OF so] findUnique_status_update[OF ex]
    by (auto intro!: exI[of _ 0])
next
  case (step m i s f st k l out st' evs)
  let ?st0 = "fst (serve (sched cx k) st)"
  let ?batch = "batch_at cx m l"
  let ?ps = "batch_ps cx ?batch"
  let ?st2 = "after_batch cx ?batch s f ?st0"
  let ?F = "fetched cx"
  let ?ids = "map (\<lambda>rc. r_id (fst rc))"
  have so: "status_only st ?st0" by (rule serve_status_only)
  have rows0: "recipients ?st0 = recipients st" using so by (rule status_only_rows)
  from step(1) have dF: "distinct (?ids ?F)"
    and pend: "\<forall>rc \<in> set (drop m ?F). fst rc \<in> set (recipients st)"
    by (simp_all add: loop_inv_def)
  from step(6) obtain l' where l': "m + l + l' \<le> length ?F"
    "gateway_calls evs = ?ids (take l' (drop (m + l) ?F))"
    "\<forall>a b. out = Returned (Finished a b) \<longrightarrow> m + l + l' = length ?F"
    by (auto simp: rows_ok_def)
  from step(6) have ih:
    "row_written evs = gateway_calls evs" "observed (broadcastId cx) ?st2 False evs" "\<forall>e. out \<noteq> Threw e"
    "map r_id (recipients st') = map r_id (recipients ?st2)"
    "\<forall>t c. out = Returned (Stopped t c) \<longrightarrow> stopping (map_option b_status (findUnique st' (broadcastId cx)))"
    "\<forall>a b. out = Returned (Finished a b) \<longrightarrow> map_option b_status (findUnique st' (broadcastId cx)) = Some COMPLETED"
    "\<forall>x. x \<notin> set (gateway_calls evs) \<longrightarrow> row_status st' x = row_status ?st2 x"
    "\<forall>rc \<in> set (drop (m + l) ?F). r_id (fst rc) \<in> set (gateway_calls evs) \<longrightarrow>
         row_status st' (r_id (fst rc)) = Some (recorded cx rc)"
    "\<forall>rc \<in> set (drop (m + l) ?F). r_id (fst rc) \<notin> set (gateway_calls evs) \<longrightarrow> fst rc \<in> set (recipients st')"
    by (simp_all add: rows_ok_def)
  let ?E = "(snd (serve (sched cx k) st) @ [StatusRead (read_status cx k st)] @
                 batch_events cx ?batch s f ?st0 @ sleep_events cx i) @ evs"
  have calls: "gateway_calls ?E = ?ids ?batch @ gateway_calls evs" by simp
  have split: "drop m ?F = ?batch @ drop (m + l) ?F"
    unfolding batch_at_def by (metis add.commute append_take_drop_id drop_drop)
  have "distinct (?ids (drop m ?F))" using dF by (simp add: distinct_drop drop_map[symmetric])
  then have dsplit: "distinct (?ids ?batch @ ?ids (drop (m + l) ?F))"
    using split by (metis map_append)
  have dbatch: "distinct (?ids ?batch)" using dsplit by simp
  have disj: "set (?ids ?batch) \<inter> set (?ids (drop (m + l) ?F)) = {}"
    using dsplit by simp
  have sub: "set (gateway_calls evs) \<subseteq> set (?ids (drop (m + l) ?F))"
    unfolding l'(2) by (auto dest: in_set_takeD)
  have c1: "\<exists>l. m + l \<le> length ?F \<and> gateway_calls ?E = ?ids (take l (drop m ?F)) \<and>
             (\<forall>a b. out = Returned (Finished a b) \<longrightarrow> m + l = length ?F)"
  proof (intro exI[of _ "l + l'"] conjI)
    show "m + (l + l') \<le> length ?F" using l'(1) by simp
    have "gateway_calls ?E = ?ids (take l (drop m ?F) @ take l' (drop (m + l) ?F))"
      using calls l'(2) by (simp add: batch_at_def)
    then show "gateway_calls ?E = ?ids (take (l + l') (drop m ?F))"
      by (simp only: take_drop_join)
    show "\<forall>a b. out = Returned (Finished a b) \<longrightarrow> m + (l + l') = length ?F"
      using l'(3) by (simp add: add.assoc)
  qed
  have c2: "row_written ?E = gateway_calls ?E" using ih(1) by simp
  have c3: "observed (broadcastId cx) st False ?E"
    using ih(2) step(3) by (simp add: read_status_def)
  have st2_status: "row_status ?st2 x = row_status (apply_updates ?ps ?st0) x" for x
    by (simp add: after_batch_def)
  have c7: "\<forall>x. x \<notin> set (gateway_calls ?E) \<longrightarrow> row_status st' x = row_status st x"
  proof (intro allI impI)
    fix x assume x: "x \<notin> set (gateway_calls ?E)"
    then have x1: "x \<notin> set (?ids ?batch)" and x2: "x \<notin> set (gateway_calls evs)"
      unfolding calls by auto
    have "row_status st' x = row_status ?st2 x" using ih(7) x2 by simp
    also have "\<dots> = row_status ?st0 x"
      unfolding st2_status using x1 by (intro row_status_apply_other) simp
    also have "\<dots> = row_status st x" by (rule row_status_status_only[OF so])
    finally show "row_status st' x = row_status st x" .
  qed
  have c8: "\<forall>rc \<in> set (drop m ?F). r_id (fst rc) \<in> set (gateway_calls ?E) \<longrightarrow>
              row_status st' (r_id (fst rc)) = Some (recorded cx rc)"
  proof (intro ballI impI)
    fix rc assume rc: "rc \<in> set (drop m ?F)" and inE: "r_id (fst rc) \<in> set (gateway_calls ?E)"
    from rc split consider (b) "rc \<in> set ?batch" | (r) "rc \<in> set (drop (m + l) ?F)"
      by (metis Un_iff set_append)
    then show "row_status st' (r_id (fst rc)) = Some (recorded cx rc)"
    proof cases
      case b
      then have idb: "r_id (fst rc) \<in> set (?ids ?batch)" by auto
      then have "r_id (fst rc) \<notin> set (gateway_calls evs)" using disj sub by auto
      then have "row_status st' (r_id (fst rc)) = row_status ?st2 (r_id (fst rc))" using ih(7) by simp
      also have "\<dots> = row_status (apply_updates ?ps ?st0) (r_id (fst rc))" by (rule st2_status)
      also have "\<dots> = Some (recorded cx rc)"
      proof -
        from batch_ps_recorded[OF b, of cx] obtain p where
          p: "p \<in> set ?ps" "fst p = fst rc"
             "(if fulfilled_ok (snd p) then SENT else ROW_FAILED) = recorded cx rc"
          by blast
        have "fst rc \<in> set (recipients ?st0)" using pend rc rows0 by simp
        then have ex: "recipient_exists ?st0 (r_id (fst p))"
          using p(2) by (auto simp: recipient_exists_def)
        have "distinct (map (\<lambda>p. r_id (fst p)) ?ps)" using dbatch by simp
        from row_status_apply[OF this p(1) ex] p(2,3) show ?thesis by simp
      qed
      finally show ?thesis .
    next
      case r
      then have "r_id (fst rc) \<notin> set (?ids ?batch)" using disj by auto
      then have "r_id (fst rc) \<in> set (gateway_calls evs)" using inE unfolding calls by auto
      then show ?thesis using ih(8) r by simp
    qed
  qed
  have c9: "\<forall>rc \<in> set (drop m ?F). r_id (fst rc) \<notin> set (gateway_calls ?E) \<longrightarrow>
              fst rc \<in> set (recipients st')"
  proof (intro ballI impI)
    fix rc assume rc: "rc \<in> set (drop m ?F)" and notE: "r_id (fst rc) \<notin> set (gateway_calls ?E)"
    then have "rc \<notin> set ?batch" unfolding calls by auto
    then have "rc \<in> set (drop (m + l) ?F)" using rc split by (metis Un_iff set_append)
    moreover have "r_id (fst rc) \<notin> set (gateway_calls evs)" using notE unfolding calls by auto
    ultimately show "fst rc \<in> set (recipients st')" using ih(9) by simp
  qed
  have c4: "map r_id (recipients st') = map r_id (recipients st)"
    using ih(4) rows0 by (simp add: after_batch_def)
  show ?case
    unfolding rows_ok_def prod.case
    using c1 c2 c3 ih(3) c4 ih(5,6) c7 c8 c9 by (intro conjI)
qed

lemma step_states:
  assumes inv: "loop_inv cx m i s f st" and ml: "m + l \<le> length (fetched cx)"
    and T: "tally st (broadcastId cx) = T" "total_of st (broadcastId cx) = T"
  shows "\<forall>x \<in> set (committed (snd (serve (sched cx k) st)) @
                  committed (row_writes (batch_ps cx (batch_at cx m l)) (fst (serve (sched cx k) st)))).
           exists_b x (broadcastId cx) \<and> total_of x (broadcastId cx) = T \<and>
           tally x (broadcastId cx) \<le> T \<and>
           sent_of x (broadcastId cx) = s \<and> failed_of x (broadcastId cx) = f"
    and "exists_b (after_batch cx (batch_at cx m l) s f (fst (serve (sched cx k) st))) (broadcastId cx)"
    and "total_of (after_batch cx (batch_at cx m l) s f (fst (serve (sched cx k) st))) (broadcastId cx) = T"
    and "tally (after_batch cx (batch_at cx m l) s f (fst (serve (sched cx k) st))) (broadcastId cx) = T"
    and "sent_of (after_batch cx (batch_at cx m l) s f (fst (serve (sched cx k) st))) (broadcastId cx)
           = s + count_ok (batch_ps cx (batch_at cx m l))"
    and "failed_of (after_batch cx (batch_at cx m l) s f (fst (serve (sched cx k) st))) (broadcastId cx)
           = f + count_failed (batch_ps cx (batch_at cx m l))"
proof -
  let ?bid = "broadcastId cx"
  let ?st0 = "fst (serve (sched cx k) st)"
  let ?batch = "batch_at cx m l"
  let ?ps = "batch_ps cx ?batch"
  let ?st1 = "apply_updates ?ps ?st0"
  let ?st2 = "after_batch cx ?batch s f ?st0"
  have so: "status_only st ?st0" by (rule serve_status_only)
  from inv have ex: "exists_b st ?bid" and cs: "sent_of st ?bid = s" and cf: "failed_of st ?bid = f"
    and dF: "distinct (map (\<lambda>rc. r_id (fst rc)) (fetched cx))"
    and dR: "distinct (map r_id (recipients st))"
    and pend: "\<forall>rc \<in> set (drop m (fetched cx)).
        fst rc \<in> set (recipients st) \<and> r_broadcastId (fst rc) = ?bid \<and> r_status (fst rc) = PENDING"
    by (simp_all add: loop_inv_def)
  have f0: "exists_b ?st0 ?bid" "sent_of ?st0 ?bid = s" "failed_of ?st0 ?bid = f"
    "total_of ?st0 ?bid = T" "tally ?st0 ?bid = T"
    using ex cs cf T status_only_fields[OF so] status_only_tally[OF so] by simp_all
  show "\<forall>x \<in> set (committed (snd (serve (sched cx k) st)) @ committed (row_writes ?ps ?st0)).
           exists_b x ?bid \<and> total_of x ?bid = T \<and> tally x ?bid \<le> T \<and>
           sent_of x ?bid = s \<and> failed_of x ?bid = f"
  proof
    fix x assume "x \<in> set (committed (snd (serve (sched cx k) st)) @ committed (row_writes ?ps ?st0))"
    then consider (c) "x \<in> set (committed (snd (serve (sched cx k) st)))"
      | (r) "x \<in> set (committed (row_writes ?ps ?st0))" by auto
    then show "exists_b x ?bid \<and> total_of x ?bid = T \<and> tally x ?bid \<le> T \<and>
           sent_of x ?bid = s \<and> failed_of x ?bid = f"
    proof cases
      case c
      from serve_committed[OF c] have sx: "status_only st x" .
      show ?thesis
        using ex cs cf T status_only_fields[OF sx] status_only_tally[OF sx] by simp
    next
      case r
      from row_writes_committed[OF r] have bx: "broadcasts x = broadcasts ?st0"
        and px: "pendingCount x ?bid \<le> pendingCount ?st0 ?bid" by auto
      have "tally x ?bid \<le> tally ?st0 ?bid"
        using px fields_same_broadcasts[OF bx] by (simp add: tally_def)
      then show ?thesis using f0 fields_same_broadcasts[OF bx] by simp
    qed
  qed
  have ex1: "exists_b ?st1 ?bid" using f0(1) by simp
  show "exists_b ?st2 ?bid" "sent_of ?st2 ?bid = s + count_ok ?ps"
    "failed_of ?st2 ?bid = f + count_failed ?ps"
    using fields_update_counts[OF ex1] by (simp_all add: after_batch_def)
  show t2: "total_of ?st2 ?bid = T"
    using fields_update_counts(4)[OF ex1] f0(4) by (simp add: after_batch_def)
  have rows0: "recipients ?st0 = recipients st" using so by (rule status_only_rows)
  have inb: "set ?batch \<subseteq> set (drop m (fetched cx))"
    unfolding batch_at_def by (rule set_take_subset)
  have "distinct (map (\<lambda>rc. r_id (fst rc)) (drop m (fetched cx)))"
    using dF by (simp add: distinct_drop drop_map[symmetric])
  then have dB: "distinct (map (\<lambda>rc. r_id (fst rc)) ?batch)"
    unfolding batch_at_def by (simp add: distinct_take take_map[symmetric])
  have allp: "\<forall>p \<in> set ?ps. fst p \<in> set (recipients ?st0) \<and> r_broadcastId (fst p) = ?bid \<and>
                 r_status (fst p) = PENDING"
  proof
    fix p assume "p \<in> set ?ps"
    then obtain rc where "rc \<in> set ?batch" "fst p = fst rc" using batch_ps_fst by blast
    then show "fst p \<in> set (recipients ?st0) \<and> r_broadcastId (fst p) = ?bid \<and> r_status (fst p) = PENDING"
      using pend inb rows0 by auto
  qed
  have "pendingCount ?st1 ?bid = pendingCount ?st0 ?bid - int (length ?ps)"
    by (rule pending_apply_exact) (use dR rows0 dB allp in simp_all)
  then have "pendingCount ?st2 ?bid = pendingCount ?st0 ?bid - int (length ?ps)"
    by (simp add: after_batch_def)
  moreover have "sent_of ?st2 ?bid + failed_of ?st2 ?bid = s + f + int (length ?ps)"
    using fields_update_counts(2,3)[OF ex1] count_ok_failed[of ?ps] by (simp add: after_batch_def)
  ultimately show "tally ?st2 ?bid = T" using f0(2,3,5) by (simp add: tally_def)
qed

lemma loop_counts:
  assumes "loop_inv cx m i s f st"
  shows "counts_ok cx T s f st (batch_loop n cx k i s f st)"
  using assms
proof (induction rule: batch_loop_rule[where P = "\<lambda>m s f st r. counts_ok cx T s f st r"])
  case (zero m i s f st)
  then show ?case by (simp add: counts_ok_def loop_inv_def)
next
  case (stop m i s f st k)
  let ?bid = "broadcastId cx"
  have so: "status_only st (fst (serve (sched cx k) st))" by (rule serve_status_only)
  from stop(1) have inv: "exists_b st ?bid" "sent_of st ?bid = s" "failed_of st ?bid = f"
    by (simp_all add: loop_inv_def)
  show ?case
    unfolding counts_ok_def
  proof (intro impI, elim conjE, simp only: prod.case, intro conjI)
    assume T: "tally st ?bid = T" "total_of st ?bid = T"
    let ?evs = "snd (serve (sched cx k) st) @ [StatusRead (read_status cx k st)]"
    have cm: "committed ?evs = committed (snd (serve (sched cx k) st))" by simp
    have each: "exists_b x ?bid \<and> total_of x ?bid = T \<and> tally x ?bid \<le> T \<and>
                sent_of x ?bid = s \<and> failed_of x ?bid = f"
      if "x \<in> set (committed ?evs)" for x
    proof -
      from that have "status_only st x" unfolding cm by (rule serve_committed)
      then show ?thesis
        using inv T status_only_fields[of st x ?bid] status_only_tally[of st x ?bid] by simp
    qed
    show "\<forall>x \<in> set (committed ?evs). exists_b x ?bid \<and> total_of x ?bid = T \<and> tally x ?bid \<le> T \<and>
            s \<le> sent_of x ?bid \<and> f \<le> failed_of x ?bid"
      using each by auto
    show "\<forall>x \<in> set (boundaries ?evs). tally x ?bid = T" by simp
    show "sorted_wrt (counters_le ?bid) (committed ?evs)"
      by (rule sorted_wrt_all) (use each in \<open>auto simp: counters_le_def\<close>)
    show "exists_b (fst (serve (sched cx k) st)) ?bid" "total_of (fst (serve (sched cx k) st)) ?bid = T"
      "tally (fst (serve (sched cx k) st)) ?bid = T"
      "s \<le> sent_of (fst (serve (sched cx k) st)) ?bid" "f \<le> failed_of (fst (serve (sched cx k) st)) ?bid"
      using inv T status_only_fields[OF so] status_only_tally[OF so] by simp_all
  qed
next
  case (finish m i s f st k)
  let ?bid = "broadcastId cx"
  let ?st0 = "fst (serve (sched cx k) st)"
  let ?st1 = "update_broadcast ?bid (\<lambda>b. b\<lparr>b_status := COMPLETED, sentCount := s, failedCount := f\<rparr>) ?st0"
  have so: "status_only st ?st0" by (rule serve_status_only)
  from finish(1) have inv: "exists_b st ?bid" "sent_of st ?bid = s" "failed_of st ?bid = f"
    by (simp_all add: loop_inv_def)
  have ex0: "exists_b ?st0 ?bid" using inv(1) status_only_fields(1)[OF so] by simp
  show ?case
    unfolding counts_ok_def
  proof (intro impI, elim conjE, simp only: prod.case, intro conjI)
    assume T: "tally st ?bid = T" "total_of st ?bid = T"
    let ?evs = "snd (serve (sched cx k) st) @ [StatusWrite ?st1]"
    have f1: "exists_b ?st1 ?bid" "sent_of ?st1 ?bid = s" "failed_of ?st1 ?bid = f" "total_of ?st1 ?bid = T"
      using fields_update_completed[OF ex0] T(2) status_only_fields(4)[OF so] by simp_all
    have t1: "tally ?st1 ?bid = T"
      using f1 T(1) inv(2,3) status_only_pending[OF so] by (simp add: tally_def)
    have cm: "committed ?evs = committed (snd (serve (sched cx k) st)) @ [?st1]" by simp
    have each0: "exists_b x ?bid \<and> total_of x ?bid = T \<and> tally x ?bid \<le> T \<and>
                sent_of x ?bid = s \<and> failed_of x ?bid = f"
      if "x \<in> set (committed (snd (serve (sched cx k) st)))" for x
    proof -
      from that have "status_only st x" by (rule serve_committed)
      then show ?thesis
        using inv T status_only_fields[of st x ?bid] status_only_tally[of st x ?bid] by simp
    qed
    have each: "exists_b x ?bid \<and> total_of x ?bid = T \<and> tally x ?bid \<le> T \<and>
                sent_of x ?bid = s \<and> failed_of x ?bid = f"
      if "x \<in> set (committed ?evs)" for x
      using that each0 f1 t1 unfolding cm by auto
    show "\<forall>x \<in> set (committed ?evs). exists_b x ?bid \<and> total_of x ?bid = T \<and> tally x ?bid \<le> T \<and>
            s \<le> sent_of x ?bid \<and> f \<le> failed_of x ?bid"
      using each by auto
    show "\<forall>x \<in> set (boundaries ?evs). tally x ?bid = T" using t1 by simp
    show "sorted_wrt (counters_le ?bid) (committed ?evs)"
      by (rule sorted_wrt_all) (use each in \<open>auto simp: counters_le_def\<close>)
    show "exists_b ?st1 ?bid" "total_of ?st1 ?bid = T" "tally ?st1 ?bid = T"
      "s \<le> sent_of ?st1 ?bid" "f \<le> failed_of ?st1 ?bid"
      using f1 t1 by simp_all
  qed
next
  case (step m i s f st k l out st' evs)
  let ?bid = "broadcastId cx"
  let ?st0 = "fst (serve (sched cx k) st)"
  let ?batch = "batch_at cx m l"
  let ?ps = "batch_ps cx ?batch"
  let ?st2 = "after_batch cx ?batch s f ?st0"
  let ?s1 = "s + count_ok ?ps"
  let ?f1 = "f + count_failed ?ps"
  let ?A = "committed (snd (serve (sched cx k) st)) @ committed (row_writes ?ps ?st0)"
  let ?E = "(snd (serve (sched cx k) st) @ [StatusRead (read_status cx k st)] @
              batch_events cx ?batch s f ?st0 @ sleep_events cx i) @ evs"
  show ?case
    unfolding counts_ok_def
  proof (intro impI, elim conjE, simp only: prod.case, intro conjI)
    assume T: "tally st ?bid = T" "total_of st ?bid = T"
    note ss = step_states[OF step(1) step(4) T, of k]
    have ih: "\<forall>x \<in> set (committed evs). exists_b x ?bid \<and> total_of x ?bid = T \<and> tally x ?bid \<le> T \<and>
                 ?s1 \<le> sent_of x ?bid \<and> ?f1 \<le> failed_of x ?bid"
      "\<forall>x \<in> set (boundaries evs). tally x ?bid = T"
      "sorted_wrt (counters_le ?bid) (committed evs)"
      "exists_b st' ?bid" "total_of st' ?bid = T" "tally st' ?bid = T"
      "?s1 \<le> sent_of st' ?bid" "?f1 \<le> failed_of st' ?bid"
      using step(6) ss(3,4) unfolding counts_ok_def by simp_all
    have cm: "committed ?E = ?A @ [?st2] @ committed evs" by simp
    have bd: "boundaries ?E = ?st2 # boundaries evs" by simp
    have ge: "s \<le> ?s1" "f \<le> ?f1" using count_nonneg[of ?ps] by simp_all
    show "\<forall>x \<in> set (committed ?E). exists_b x ?bid \<and> total_of x ?bid = T \<and> tally x ?bid \<le> T \<and>
            s \<le> sent_of x ?bid \<and> f \<le> failed_of x ?bid"
      unfolding cm using ss(1,2,3,4,5,6) ih(1) ge by fastforce
    show "\<forall>x \<in> set (boundaries ?E). tally x ?bid = T"
      unfolding bd using ss(4) ih(2) by simp
    have sA: "sorted_wrt (counters_le ?bid) ?A"
      by (rule sorted_wrt_all) (use ss(1) in \<open>auto simp: counters_le_def\<close>)
    have s2: "sorted_wrt (counters_le ?bid) ([?st2] @ committed evs)"
      using ih(1,3) ss(5,6) by (auto simp: counters_le_def)
    have cross: "\<forall>x \<in> set ?A. \<forall>y \<in> set ([?st2] @ committed evs). counters_le ?bid x y"
      using ss(1,5,6) ih(1) ge by (fastforce simp: counters_le_def)
    show "sorted_wrt (counters_le ?bid) (committed ?E)"
      unfolding cm using sA s2 cross by (simp only: sorted_wrt_append) simp
    show "exists_b st' ?bid" "total_of st' ?bid = T" "tally st' ?bid = T"
      using ih(4,5,6) by simp_all
    show "s \<le> sent_of st' ?bid" "f \<le> failed_of st' ?bid"
      using ih(7,8) ge by simp_all
  qed
qed



lemma loop_returns:
  assumes "loop_inv cx m i s f st" and "0 < batchSize' cx" and "0 \<le> i"
    and "nat (int (length (fetched cx)) - i) < n"
  shows "fst (batch_loop n cx k i s f st) \<noteq> StillRunning"
  using assms
proof (induction n arbitrary: m i s f st k)
  case 0
  then show ?case by simp
next
  case (Suc n)
  show ?case
  proof (cases "i < int (length (fetched cx))")
    case False
    have ex: "exists_b st (broadcastId cx)" using Suc.prems(1) by (simp add: loop_inv_def)
    show ?thesis using iteration_finish[OF False ex, of k s f] by simp
  next
    case True
    show ?thesis
    proof (cases "map_option b_status (findUnique (fst (serve (sched cx k) st)) (broadcastId cx)) = Some PAUSED \<or>
         map_option b_status (findUnique (fst (serve (sched cx k) st)) (broadcastId cx)) = Some CANCELLED")
      case stp: True
      show ?thesis using iteration_stop[OF True stp, of s f] by simp
    next
      case go: False
      from iteration_next[OF Suc.prems(1) True go] obtain l where
        it: "iteration cx k i s f st =
           Next (s + count_ok (batch_ps cx (take l (drop m (fetched cx)))))
            (f + count_failed (batch_ps cx (take l (drop m (fetched cx)))))
            (after_batch cx (take l (drop m (fetched cx))) s f (fst (serve (sched cx k) st)))
            (snd (serve (sched cx k) st) @
             [StatusRead (map_option b_status (findUnique (fst (serve (sched cx k) st)) (broadcastId cx)))] @
             batch_events cx (take l (drop m (fetched cx))) s f (fst (serve (sched cx k) st)) @
             (if i + batchSize' cx < int (length (fetched cx)) then [Slept (batchDelayMs' cx)] else []))"
        and inv': "loop_inv cx (m + l) (i + batchSize' cx)
            (s + count_ok (batch_ps cx (take l (drop m (fetched cx)))))
            (f + count_failed (batch_ps cx (take l (drop m (fetched cx)))))
            (after_batch cx (take l (drop m (fetched cx))) s f (fst (serve (sched cx k) st)))"
        by blast
      have fuel: "nat (int (length (fetched cx)) - (i + batchSize' cx)) < n"
        using Suc.prems(2,3,4) True by linarith
      have pos: "0 \<le> i + batchSize' cx" using Suc.prems(2,3) by simp
      from Suc.IH[OF inv' Suc.prems(2) pos fuel, of "Suc k"] it
      show ?thesis by (simp add: split_def Let_def)
    qed
  qed
qed

subsection \<open>The job\<close>

text \<open>
  For every order in which the database may return the rows: it returns the rows it was
  given, and in the order of the table when their creation times strictly increase
  along it.
\<close>

lemma orders_table_order: "orders_by_createdAt table_order"
  by (simp add: orders_by_createdAt_def table_order_def)


lemma orders_set:
  assumes "orders_by_createdAt ord"
  shows "set (ord rows) = set rows"
proof (rule mset_eq_setD)
  show "mset (ord rows) = mset rows" using assms by (simp add: orders_by_createdAt_def)
qed

lemma orders_distinct_ids:
  assumes "orders_by_createdAt ord" and "distinct (map r_id rows)"
  shows "distinct (map r_id (ord rows))"
proof -
  have "mset (map r_id (ord rows)) = mset (map r_id rows)"
    using assms(1) by (simp add: orders_by_createdAt_def)
  then show ?thesis using assms(2) by (rule mset_eq_imp_distinct_iff[THEN iffD2])
qed


lemma fetched_by_rows:
  assumes "orders_by_createdAt ord" and "rc \<in> set (findMany_pending_by ord st bid)"
  shows "fst rc \<in> set (recipients st) \<and> r_broadcastId (fst rc) = bid \<and> r_status (fst rc) = PENDING"
proof -
  from assms(2) have "fst rc \<in> set (ord (pending_rows st bid))"
    by (auto simp: findMany_pending_by_def)
  then have "fst rc \<in> set (pending_rows st bid)"
    by (simp only: orders_set[OF assms(1)])
  then show ?thesis by (simp add: pending_rows_def)
qed

lemma fetched_by_ids [simp]:
  "map (\<lambda>rc. r_id (fst rc)) (findMany_pending_by ord st bid) = map r_id (ord (pending_rows st bid))"
  by (simp add: findMany_pending_by_def comp_def)

lemma findMany_by_status_only:
  "status_only st st' \<Longrightarrow> findMany_pending_by ord st' bid = findMany_pending_by ord st bid"
  by (simp add: status_only_def findMany_pending_by_def pending_rows_def)

lemma job_ctx_by_simps [simp]:
  "broadcastId (job_ctx_by ord g sc job b st) = j_broadcastId job"
  "fetched (job_ctx_by ord g sc job b st) = findMany_pending_by ord st (j_broadcastId job)"
  "gw (job_ctx_by ord g sc job b st) = g" "tenantId (job_ctx_by ord g sc job b st) = j_tenantId job"
  "broadcast (job_ctx_by ord g sc job b st) = b" "sched (job_ctx_by ord g sc job b st) = sc"
  by (simp_all add: job_ctx_by_def)

lemma initial_inv_by:
  assumes o: "orders_by_createdAt ord"
    and "findUnique st (j_broadcastId job) = Some b" and "distinct (map r_id (recipients st))"
  shows "loop_inv (job_ctx_by ord g sc job b (started sc st job)) 0 0 (sentCount b) (failedCount b)
           (started sc st job)"
proof -
  let ?st1 = "started sc st job"
  let ?bid = "j_broadcastId job"
  have so: "status_only st ?st1" by (rule started_status_only)
  have rows: "recipients ?st1 = recipients st" using so by (rule status_only_rows)
  have f: "exists_b st ?bid" "sent_of st ?bid = sentCount b" "failed_of st ?bid = failedCount b"
    using assms(2) by (simp_all add: exists_b_def sent_of_def failed_of_def)
  have "slice_rel (batchSize' (job_ctx_by ord g sc job b ?st1))
          (length (findMany_pending_by ord ?st1 ?bid)) 0 0"
    by (simp add: slice_rel_def job_ctx_by_def)
  moreover have "distinct (map r_id (pending_rows ?st1 ?bid))"
    unfolding pending_rows_def using assms(3) rows by (simp add: distinct_map_filter)
  then have "distinct (map r_id (ord (pending_rows ?st1 ?bid)))"
    by (rule orders_distinct_ids[OF o])
  moreover have "\<forall>rc \<in> set (findMany_pending_by ord ?st1 ?bid).
      fst rc \<in> set (recipients ?st1) \<and> r_broadcastId (fst rc) = ?bid \<and> r_status (fst rc) = PENDING"
    using fetched_by_rows[OF o] by blast
  ultimately show ?thesis
    unfolding loop_inv_def
    using assms(3) rows f status_only_fields[OF so, of ?bid] by simp
qed

lemma handle_by_unfold:
  assumes "findUnique st (j_broadcastId job) = Some b" and "b_status b \<noteq> CANCELLED"
  shows "handleSendBroadcast_by ord n g sc st job =
     (case batch_loop n (job_ctx_by ord g sc job b (started sc st job)) 1 0 (sentCount b)
             (failedCount b) (started sc st job) of
        (out, st2, evs) \<Rightarrow>
          (out, st2, snd (serve (sc 0) st) @ [StatusWrite (started sc st job)] @ evs))"
proof -
  have "exists_b (fst (serve (sc 0) st)) (j_broadcastId job)"
    using assms(1) status_only_fields(1)[OF serve_status_only[of st "sc 0"], of "j_broadcastId job"]
    by (simp add: exists_b_def)
  then obtain b0 where "findUnique (fst (serve (sc 0) st)) (j_broadcastId job) = Some b0"
    by (auto simp: exists_b_def)
  then show ?thesis
    using assms by (simp add: handleSendBroadcast_by_def split_def Let_def started_def)
qed

lemma handle_by_cancelled:
  assumes "findUnique st (j_broadcastId job) = Some b" and "b_status b = CANCELLED"
  shows "handleSendBroadcast_by ord n g sc st job = (Returned (Skipped ''cancelled''), st, [])"
  using assms by (simp add: handleSendBroadcast_by_def)

lemma handle_by_missing:
  assumes "findUnique st (j_broadcastId job) = None"
  shows "handleSendBroadcast_by ord n g sc st job =
           (Threw (Error ''record to update not found''), st, [])"
  using assms by (simp add: handleSendBroadcast_by_def on_error_def)

text \<open>And on a database that keeps the order of the table among equal creation times.\<close>

lemma findMany_pending_eq:
  "findMany_pending st bid =
     map (\<lambda>r. (r, find (\<lambda>c. c_id c = r_contactId r) (contacts st)))
       (sort_key r_createdAt (pending_rows st bid))"
  by (simp add: findMany_pending_def findMany_pending_by_def table_order_def)

lemma job_ctx_eq:
  "job_ctx g sc job b st =
     \<lparr> gw = g, sched = sc,
       tenantId = j_tenantId job,
       broadcastId = j_broadcastId job,
       broadcast = b,
       fetched = findMany_pending st (j_broadcastId job),
       batchSize' = (if b_batchSize b = 0 then 50 else b_batchSize b),
       batchDelayMs' = (if b_batchDelayMs b = 0 then 1000 else b_batchDelayMs b) \<rparr>"
  by (simp add: job_ctx_def job_ctx_by_def findMany_pending_def)

lemma fetched_ids [simp]:
  "map (\<lambda>rc. r_id (fst rc)) (findMany_pending st bid) = map r_id (sort_key r_createdAt (pending_rows st bid))"
  by (simp add: findMany_pending_eq comp_def)

lemma fetched_rows:
  "rc \<in> set (findMany_pending st bid) \<Longrightarrow>
     fst rc \<in> set (recipients st) \<and> r_broadcastId (fst rc) = bid \<and> r_status (fst rc) = PENDING"
  using fetched_by_rows[OF orders_table_order] by (simp add: findMany_pending_def)

lemma findMany_status_only:
  "status_only st st' \<Longrightarrow> findMany_pending st' bid = findMany_pending st bid"
  by (simp add: findMany_pending_def findMany_by_status_only)

lemma job_ctx_simps [simp]:
  "broadcastId (job_ctx g sc job b st) = j_broadcastId job"
  "fetched (job_ctx g sc job b st) = findMany_pending st (j_broadcastId job)"
  "gw (job_ctx g sc job b st) = g" "tenantId (job_ctx g sc job b st) = j_tenantId job"
  "broadcast (job_ctx g sc job b st) = b" "sched (job_ctx g sc job b st) = sc"
  by (simp_all add: job_ctx_eq)

lemma initial_inv:
  assumes "findUnique st (j_broadcastId job) = Some b" and "distinct (map r_id (recipients st))"
  shows "loop_inv (job_ctx g sc job b (started sc st job)) 0 0 (sentCount b) (failedCount b)
           (started sc st job)"
  using initial_inv_by[OF orders_table_order assms] by (simp add: job_ctx_def)

lemma handle_unfold:
  assumes "findUnique st (j_broadcastId job) = Some b" and "b_status b \<noteq> CANCELLED"
  shows "handleSendBroadcast n g sc st job =
     (case batch_loop n (job_ctx g sc job b (started sc st job)) 1 0 (sentCount b) (failedCount b)
             (started sc st job) of
        (out, st2, evs) \<Rightarrow>
          (out, st2, snd (serve (sc 0) st) @ [StatusWrite (started sc st job)] @ evs))"
  using handle_by_unfold[OF assms] by (simp add: handleSendBroadcast_def job_ctx_def)

lemma handle_cancelled:
  assumes "findUnique st (j_broadcastId job) = Some b" and "b_status b = CANCELLED"
  shows "handleSendBroadcast n g sc st job = (Returned (Skipped ''cancelled''), st, [])"
  using handle_by_cancelled[OF assms] by (simp add: handleSendBroadcast_def)

lemma handle_missing:
  assumes "findUnique st (j_broadcastId job) = None"
  shows "handleSendBroadcast n g sc st job = (Threw (Error ''record to update not found''), st, [])"
  using handle_by_missing[OF assms] by (simp add: handleSendBroadcast_def)

lemma find_distinct_row:
  assumes "distinct (map r_id rows)" and "r \<in> set rows"
  shows "find (\<lambda>x. r_id x = r_id r) rows = Some r"
  using assms by (induction rows) (auto simp: image_iff)

lemma row_status_of_row:
  assumes "distinct (map r_id (recipients st))" and "r \<in> set (recipients st)"
  shows "row_status st (r_id r) = Some (r_status r)"
  using find_distinct_row[OF assms] by (simp add: row_status_def)

lemma not_pending_not_fetched:
  assumes "distinct (map r_id (recipients st))" and "row_status st rid = Some s" and "s \<noteq> PENDING"
  shows "rid \<notin> set (map (\<lambda>rc. r_id (fst rc)) (findMany_pending st bid))"
proof
  assume "rid \<in> set (map (\<lambda>rc. r_id (fst rc)) (findMany_pending st bid))"
  then obtain r where r: "r \<in> set (pending_rows st bid)" "r_id r = rid" by auto
  then have "r \<in> set (recipients st)" "r_status r = PENDING" by (auto simp: pending_rows_def)
  with row_status_of_row[OF assms(1), of r] r(2) assms(2,3) show False by simp
qed

lemma top_rows:
  assumes b: "findUnique st (j_broadcastId job) = Some b" and live: "b_status b \<noteq> CANCELLED"
    and d: "distinct (map r_id (recipients st))"
  obtains out st' evs where
    "handleSendBroadcast n g sc st job =
       (out, st', snd (serve (sc 0) st) @ [StatusWrite (started sc st job)] @ evs)"
    and "batch_loop n (job_ctx g sc job b (started sc st job)) 1 0 (sentCount b) (failedCount b)
           (started sc st job) = (out, st', evs)"
proof -
  obtain out st' evs where r:
    "batch_loop n (job_ctx g sc job b (started sc st job)) 1 0 (sentCount b) (failedCount b)
           (started sc st job) = (out, st', evs)"
    by (cases "batch_loop n (job_ctx g sc job b (started sc st job)) 1 0 (sentCount b) (failedCount b)
           (started sc st job)")
  then have "handleSendBroadcast n g sc st job =
       (out, st', snd (serve (sc 0) st) @ [StatusWrite (started sc st job)] @ evs)"
    using handle_unfold[OF b live, of n g sc] by simp
  then show ?thesis using that r by blast
qed

lemma top_recorded:
  assumes b: "findUnique st (j_broadcastId job) = Some b" and live: "b_status b \<noteq> CANCELLED"
    and d: "distinct (map r_id (recipients st))"
    and l: "batch_loop n (job_ctx g sc job b (started sc st job)) 1 0 (sentCount b) (failedCount b)
           (started sc st job) = (out, st', evs)"
  shows "observed (j_broadcastId job) (started sc st job) False evs"
    and "\<forall>t c. out = Returned (Stopped t c) \<longrightarrow>
           stopping (map_option b_status (findUnique st' (j_broadcastId job)))"
    and "map r_id (recipients st') = map r_id (recipients st)"
    and "\<forall>e. out \<noteq> Threw e"
    and "set (gateway_calls evs) \<subseteq> set (map (\<lambda>rc. r_id (fst rc)) (findMany_pending st (j_broadcastId job)))"
    and "distinct (gateway_calls evs)"
    and "\<forall>rc \<in> set (findMany_pending st (j_broadcastId job)).
           r_id (fst rc) \<in> set (gateway_calls evs) \<longrightarrow>
           row_status st' (r_id (fst rc)) =
             Some (if success (sendMessage (g (r_id (fst rc))) (j_tenantId job) b (snd rc))
                   then SENT else ROW_FAILED)"
    and "\<forall>rc \<in> set (findMany_pending st (j_broadcastId job)).
           r_id (fst rc) \<notin> set (gateway_calls evs) \<longrightarrow>
           row_status st' (r_id (fst rc)) = Some PENDING"
proof -
  let ?bid = "j_broadcastId job"
  let ?st1 = "started sc st job"
  let ?cx = "job_ctx g sc job b ?st1"
  have so: "status_only st ?st1" by (rule started_status_only)
  have fm: "findMany_pending ?st1 ?bid = findMany_pending st ?bid"
    by (rule findMany_status_only[OF so])
  have inv: "loop_inv ?cx 0 0 (sentCount b) (failedCount b) ?st1"
    by (rule initial_inv[OF b d])
  from loop_rows[OF inv, of n 1] l have ok: "rows_ok ?cx 0 ?st1 (out, st', evs)" by simp
  from ok obtain k where k: "gateway_calls evs = map (\<lambda>rc. r_id (fst rc)) (take k (fetched ?cx))"
    by (auto simp: rows_ok_def)
  show "observed ?bid ?st1 False evs" using ok by (simp add: rows_ok_def)
  show "\<forall>t c. out = Returned (Stopped t c) \<longrightarrow> stopping (map_option b_status (findUnique st' ?bid))"
    using ok by (simp add: rows_ok_def)
  show ids: "map r_id (recipients st') = map r_id (recipients st)"
    using ok status_only_rows[OF so] by (simp add: rows_ok_def)
  show "\<forall>e. out \<noteq> Threw e" using ok by (simp add: rows_ok_def)
  show sub: "set (gateway_calls evs) \<subseteq> set (map (\<lambda>rc. r_id (fst rc)) (findMany_pending st ?bid))"
    unfolding k job_ctx_simps fm set_map by (rule image_mono[OF set_take_subset])
  have dF: "distinct (map (\<lambda>rc. r_id (fst rc)) (fetched ?cx))"
    using inv by (simp add: loop_inv_def)
  have "map (\<lambda>rc. r_id (fst rc)) (take k (fetched ?cx)) = take k (map (\<lambda>rc. r_id (fst rc)) (fetched ?cx))"
    by (simp only: take_map)
  then show "distinct (gateway_calls evs)"
    unfolding k using dF distinct_take by metis
  show "\<forall>rc \<in> set (findMany_pending st ?bid).
           r_id (fst rc) \<in> set (gateway_calls evs) \<longrightarrow>
           row_status st' (r_id (fst rc)) =
             Some (if success (sendMessage (g (r_id (fst rc))) (j_tenantId job) b (snd rc))
                   then SENT else ROW_FAILED)"
    using ok fm by (simp add: rows_ok_def recorded_def)
  show "\<forall>rc \<in> set (findMany_pending st ?bid).
           r_id (fst rc) \<notin> set (gateway_calls evs) \<longrightarrow>
           row_status st' (r_id (fst rc)) = Some PENDING"
  proof (intro ballI impI)
    fix rc assume rc: "rc \<in> set (findMany_pending st ?bid)"
      and n: "r_id (fst rc) \<notin> set (gateway_calls evs)"
    have "row_status st' (r_id (fst rc)) = row_status ?st1 (r_id (fst rc))"
      using ok n by (simp add: rows_ok_def)
    also have "\<dots> = row_status st (r_id (fst rc))" by (rule row_status_status_only[OF so])
    also have "\<dots> = Some PENDING"
      using row_status_of_row[OF d, of "fst rc"] fetched_rows[OF rc] by simp
    finally show "row_status st' (r_id (fst rc)) = Some PENDING" .
  qed
qed

lemma top_counts:
  assumes b: "findUnique st (j_broadcastId job) = Some b"
    and c: "sentCount b + failedCount b + pendingCount st (j_broadcastId job) = totalRecipients b"
  shows "tally st (j_broadcastId job) = totalRecipients b"
    and "total_of st (j_broadcastId job) = totalRecipients b"
    and "sent_of st (j_broadcastId job) = sentCount b"
    and "failed_of st (j_broadcastId job) = failedCount b"
    and "status_only st x \<Longrightarrow> tally x (j_broadcastId job) = totalRecipients b \<and>
           total_of x (j_broadcastId job) = totalRecipients b \<and>
           sent_of x (j_broadcastId job) = sentCount b \<and>
           failed_of x (j_broadcastId job) = failedCount b"
proof -
  show t: "tally st (j_broadcastId job) = totalRecipients b"
    and tt: "total_of st (j_broadcastId job) = totalRecipients b"
    and s: "sent_of st (j_broadcastId job) = sentCount b"
    and f: "failed_of st (j_broadcastId job) = failedCount b"
    using b c by (simp_all add: tally_def sent_of_def failed_of_def total_of_def)
  show "status_only st x \<Longrightarrow> tally x (j_broadcastId job) = totalRecipients b \<and>
           total_of x (j_broadcastId job) = totalRecipients b \<and>
           sent_of x (j_broadcastId job) = sentCount b \<and>
           failed_of x (j_broadcastId job) = failedCount b"
    using t tt s f status_only_fields[of st x "j_broadcastId job"]
      status_only_tally[of st x "j_broadcastId job"] by simp
qed

text \<open>
  With a batch size that is not negative, a run that is observed for more iterations than
  there are pending rows returns: it neither throws nor goes on for ever.
\<close>

lemma handle_returns:
  assumes b: "findUnique st (j_broadcastId job) = Some b"
    and d: "distinct (map r_id (recipients st))"
    and bs: "0 \<le> b_batchSize b"
    and n: "length (pending_rows st (j_broadcastId job)) < n"
  shows "\<exists>r. fst (handleSendBroadcast n g sc st job) = Returned r"
proof (cases "b_status b = CANCELLED")
  case True
  then show ?thesis using b by (simp add: handle_cancelled)
next
  case False
  let ?st1 = "started sc st job"
  let ?cx = "job_ctx g sc job b ?st1"
  from top_rows[OF b False d, of n g sc] obtain out st' evs where
    h: "handleSendBroadcast n g sc st job =
          (out, st', snd (serve (sc 0) st) @ [StatusWrite ?st1] @ evs)"
    and l: "batch_loop n ?cx 1 0 (sentCount b) (failedCount b) ?st1 = (out, st', evs)"
    by blast
  have pos: "0 < batchSize' ?cx" using bs by (simp add: job_ctx_eq)
  have len: "length (fetched ?cx) = length (pending_rows st (j_broadcastId job))"
    using findMany_status_only[OF started_status_only[of st sc job], of "j_broadcastId job"]
    by (simp add: findMany_pending_eq)
  have fuel: "nat (int (length (fetched ?cx)) - 0) < n" using n len by simp
  from loop_returns[OF initial_inv[OF b d, of g sc] pos _ fuel, of 1] l
  have "out \<noteq> StillRunning" by simp
  moreover have "\<forall>e. out \<noteq> Threw e" using top_recorded(4)[OF b False d l] .
  ultimately show ?thesis unfolding h by (cases out) auto
qed

text \<open>
  What the loop ensures about pause and cancel, for every gateway, every schedule of
  control requests and every batch size: each status read returns the status that is in
  the store at that moment; the gateway is called and rows are written only after a
  read, in the same iteration, of a status that is neither \<open>PAUSED\<close> nor
  \<open>CANCELLED\<close>; after a read of \<open>PAUSED\<close> or \<open>CANCELLED\<close> the run does nothing
  more; every row for which the gateway was called has the outcome of that call
  recorded, and the other pending rows are still \<open>PENDING\<close>. The example is the run
  in which a pause is requested while the first batch is sent.
\<close>

lemma status_read_before_each_batch:
  assumes "findUnique st (j_broadcastId job) = Some b"
    and "distinct (map r_id (recipients st))"
  shows "case handleSendBroadcast n g sc st job of (out, st', evs) \<Rightarrow>
           observed (j_broadcastId job) st False evs \<and>
           (\<forall>t c. out = Returned (Stopped t c) \<longrightarrow>
              stopping (map_option b_status (findUnique st' (j_broadcastId job)))) \<and>
           (\<forall>rc \<in> set (findMany_pending st (j_broadcastId job)).
              r_id (fst rc) \<in> set (gateway_calls evs) \<longrightarrow>
              row_status st' (r_id (fst rc)) =
                Some (if success (sendMessage (g (r_id (fst rc))) (j_tenantId job) b (snd rc))
                      then SENT else ROW_FAILED)) \<and>
           (\<forall>rc \<in> set (findMany_pending st (j_broadcastId job)).
              r_id (fst rc) \<notin> set (gateway_calls evs) \<longrightarrow>
              row_status st' (r_id (fst rc)) = Some PENDING)"
proof (cases "b_status b = CANCELLED")
  case True
  have "\<forall>rc \<in> set (findMany_pending st (j_broadcastId job)). row_status st (r_id (fst rc)) = Some PENDING"
    using row_status_of_row[OF assms(2)] fetched_rows by fastforce
  then show ?thesis using assms(1) True by (simp add: handle_cancelled)
next
  case False
  from top_rows[OF assms(1) False assms(2), of n g sc] obtain out st' evs where
    h: "handleSendBroadcast n g sc st job =
          (out, st', snd (serve (sc 0) st) @ [StatusWrite (started sc st job)] @ evs)"
    and l: "batch_loop n (job_ctx g sc job b (started sc st job)) 1 0 (sentCount b) (failedCount b)
              (started sc st job) = (out, st', evs)"
    by blast
  note r = top_recorded[OF assms(1) False assms(2) l]
  have c: "observed (j_broadcastId job) st False (snd (serve (sc 0) st) @ [StatusWrite (started sc st job)] @ evs)"
    using r(1) by simp
  have g: "gateway_calls (snd (serve (sc 0) st) @ [StatusWrite (started sc st job)] @ evs) = gateway_calls evs"
    by simp
  show ?thesis unfolding h prod.case g using c r(2,7,8) by (intro conjI)
qed

lemma status_read_before_each_batch_example:
  "findUnique ex5 (j_broadcastId ex_job) = Some (ex_broadcast 5 2 0 QUEUED) \<and>
   distinct (map r_id (recipients ex5)) \<and>
   fst run_paused5 = Returned (Stopped ''paused'' 2) \<and>
   observed (j_broadcastId ex_job) ex5 False (snd (snd run_paused5)) \<and>
   stopping (map_option b_status (findUnique (fst (snd run_paused5)) (j_broadcastId ex_job))) \<and>
   ex_rc1 \<in> set (findMany_pending ex5 (j_broadcastId ex_job)) \<and>
   r_id (fst ex_rc1) \<in> set (gateway_calls (snd (snd run_paused5))) \<and>
   row_status (fst (snd run_paused5)) (r_id (fst ex_rc1)) = Some SENT \<and>
   ex_rc5 \<in> set (findMany_pending ex5 (j_broadcastId ex_job)) \<and>
   r_id (fst ex_rc5) \<notin> set (gateway_calls (snd (snd run_paused5))) \<and>
   row_status (fst (snd run_paused5)) (r_id (fst ex_rc5)) = Some PENDING"
proof -
  have f: "findUnique ex5 (j_broadcastId ex_job) = Some (ex_broadcast 5 2 0 QUEUED)" by code_simp
  have d: "distinct (map r_id (recipients ex5))" by code_simp
  have o: "fst run_paused5 = Returned (Stopped ''paused'' 2)" by code_simp
  have m1: "ex_rc1 \<in> set (findMany_pending ex5 (j_broadcastId ex_job))" by code_simp
  have c1: "r_id (fst ex_rc1) \<in> set (gateway_calls (snd (snd run_paused5)))" by code_simp
  have s1: "success (sendMessage (gw_ok (r_id (fst ex_rc1))) (j_tenantId ex_job)
              (ex_broadcast 5 2 0 QUEUED) (snd ex_rc1))" by code_simp
  have m5: "ex_rc5 \<in> set (findMany_pending ex5 (j_broadcastId ex_job))" by code_simp
  have c5: "r_id (fst ex_rc5) \<notin> set (gateway_calls (snd (snd run_paused5)))" by code_simp
  from status_read_before_each_batch[OF f d, where n = 4 and g = gw_ok
      and sc = pause_after_first_batch]
  have t: "observed (j_broadcastId ex_job) ex5 False (snd (snd run_paused5))"
    "\<forall>t c. fst run_paused5 = Returned (Stopped t c) \<longrightarrow>
       stopping (map_option b_status (findUnique (fst (snd run_paused5)) (j_broadcastId ex_job)))"
    "\<forall>rc \<in> set (findMany_pending ex5 (j_broadcastId ex_job)).
       r_id (fst rc) \<in> set (gateway_calls (snd (snd run_paused5))) \<longrightarrow>
       row_status (fst (snd run_paused5)) (r_id (fst rc)) =
         Some (if success (sendMessage (gw_ok (r_id (fst rc))) (j_tenantId ex_job)
                  (ex_broadcast 5 2 0 QUEUED) (snd rc)) then SENT else ROW_FAILED)"
    "\<forall>rc \<in> set (findMany_pending ex5 (j_broadcastId ex_job)).
       r_id (fst rc) \<notin> set (gateway_calls (snd (snd run_paused5))) \<longrightarrow>
       row_status (fst (snd run_paused5)) (r_id (fst rc)) = Some PENDING"
    by (simp_all add: split_def run_paused5_def)
  have st: "stopping (map_option b_status (findUnique (fst (snd run_paused5)) (j_broadcastId ex_job)))"
    using t(2) o by blast
  have r1: "row_status (fst (snd run_paused5)) (r_id (fst ex_rc1)) = Some SENT"
    using bspec[OF t(3) m1] c1 s1 by simp
  have r5: "row_status (fst (snd run_paused5)) (r_id (fst ex_rc5)) = Some PENDING"
    using bspec[OF t(4) m5] c5 by simp
  show ?thesis using f d o t(1) st m1 c1 r1 m5 c5 r5 by blast
qed

subsection \<open>The service\<close>

text \<open>
  A broadcast as \<open>create\<close> stores it satisfies the conservation property, when the
  identifier that the database generates for it is new.
\<close>

lemma create_conserves:
  assumes c: "create thisMonth now newId st tenant dto = (Inr b, st')"
    and fr: "\<forall>r \<in> set (recipients st). r_broadcastId r \<noteq> newId 0"
    and fb: "\<forall>x \<in> set (broadcasts st). b_id x \<noteq> newId 0"
  shows "findUnique st' (newId 0) = Some b \<and>
         totalRecipients b = int (length (calculateRecipients st tenant dto)) \<and>
         sentCount b + failedCount b + pendingCount st' (newId 0) = totalRecipients b"
proof -
  let ?ids = "calculateRecipients st tenant dto"
  let ?b = "new_broadcast (newId 0) tenant dto (int (length ?ids))"
  let ?rows = "map (new_recipient newId (newId 0) now) (enumerate 0 ?ids)"
  from c have bb: "b = ?b"
    and bs: "broadcasts st' = broadcasts st @ [?b]"
    and rs: "recipients st' = recipients st @ ?rows"
    by (auto simp: create_def Let_def split: if_splits option.splits)
  have f1: "find (\<lambda>x. b_id x = newId 0) (broadcasts st) = None"
    using fb by (simp add: find_None_iff)
  have fa: "find P xs = None \<Longrightarrow> find P (xs @ ys) = find P ys" for P and xs ys :: "Broadcast list"
    by (induction xs) (auto split: if_splits)
  have fu: "findUnique st' (newId 0) = Some b"
    unfolding findUnique_def bs bb using fa[OF f1]
    by (simp add: new_broadcast_def)
  have p1: "filter (\<lambda>r. r_broadcastId r = newId 0 \<and> r_status r = PENDING) (recipients st) = []"
    using fr by (simp add: filter_empty_conv)
  have p2: "filter (\<lambda>r. r_broadcastId r = newId 0 \<and> r_status r = PENDING) ?rows = ?rows"
    by (simp add: filter_id_conv new_recipient_def default_row_status_def)
  have "pendingCount st' (newId 0) = int (length ?ids)"
    unfolding pendingCount_def pending_rows_def rs using p1 p2 by simp
  then show ?thesis using fu bb by (simp add: new_broadcast_def default_count_def)
qed

text \<open>
  The recipient rows that \<open>create\<close> writes all carry the same creation time: they
  are written by one \<^verbatim>\<open>createMany\<close>.
\<close>

lemma create_rows_one_createdAt:
  assumes "create thisMonth now newId st tenant dto = (Inr b, st')"
  shows "\<exists>rows. recipients st' = recipients st @ rows \<and>
           length rows = length (calculateRecipients st tenant dto) \<and>
           (\<forall>r \<in> set rows. r_broadcastId r = b_id b \<and> r_createdAt r = now)"
proof -
  let ?ids = "calculateRecipients st tenant dto"
  let ?rows = "map (new_recipient newId (newId 0) now) (enumerate 0 ?ids)"
  from assms have "b = new_broadcast (newId 0) tenant dto (int (length ?ids))"
    and "recipients st' = recipients st @ ?rows"
    by (auto simp: create_def Let_def split: if_splits option.splits)
  then show ?thesis
    by (intro exI[of _ ?rows]) (auto simp: new_recipient_def new_broadcast_def)
qed

text \<open>
  Where \<open>calculateRecipients\<close> does query the contacts with \<^verbatim>\<open>phone: { not: null }\<close>
  (the target \<^verbatim>\<open>'ALL'\<close>, and every target once filters are given), its result has no
  duplicates and no contact without a phone number.
\<close>

lemma calculateRecipients_all_or_filtered:
  assumes "distinct (map c_id (contacts st))"
    and "targetType dto = TARGET_ALL \<or> filters dto \<noteq> None"
  shows "distinct (calculateRecipients st tenant dto) \<and>
         (\<forall>cid \<in> set (calculateRecipients st tenant dto).
            \<exists>c \<in> set (contacts st). c_id c = cid \<and> c_phone c \<noteq> None)"
proof (cases "filters dto")
  case None
  then have "targetType dto = TARGET_ALL" using assms(2) by simp
  then show ?thesis
    using None assms(1) by (auto simp: calculateRecipients_def target_contacts_def distinct_map_filter)
next
  case (Some f)
  show ?thesis
  proof (cases "target_contacts st tenant dto = []")
    case True
    then show ?thesis using Some by (simp add: calculateRecipients_def)
  next
    case False
    then show ?thesis
      using Some assms(1)
      by (auto simp: calculateRecipients_def Let_def distinct_map_filter filter_where_def)
  qed
qed

lemma ex_targets_custom:
  "calculateRecipients ex_targets tn (dto_custom [''c1'', ''c1'', ''c2'']) = [''c1'', ''c1'', ''c2'']"
  by (simp add: calculateRecipients_def target_contacts_def dto_custom_def ex_dto_def)

text \<open>
  The scenario of five recipients and batches of two, evaluated for a gateway that
  returns for every call and for every observation of at least four iterations.
\<close>

lemma scenario_five_evaluated:
  "case handleSendBroadcast (Suc (Suc (Suc (Suc n)))) (\<lambda>rid rq. WaReturned (m rid rq))
          no_requests ex5 ex_job of
     (out, st, evs) \<Rightarrow>
       out = Returned (Finished 5 0) \<and>
       batch_sizes 0 evs = [2, 2, 1] \<and>
       gateway_calls evs = [''r1'', ''r2'', ''r3'', ''r4'', ''r5''] \<and>
       map b_status (broadcasts st) = [COMPLETED] \<and>
       map sentCount (broadcasts st) = [5] \<and>
       map failedCount (broadcasts st) = [0] \<and>
       map r_status (recipients st) = [SENT, SENT, SENT, SENT, SENT]"
  by code_simp

section \<open>The claims\<close>

subsection \<open>C1: a failed send and retries\<close>

text \<open>
  Claim C1 as stated fails. The claim: a row whose send attempt fails with a transient
  outcome stays \<open>PENDING\<close> and is retried, and is never marked \<open>FAILED\<close> on the first
  transient failure. In the run \<open>run_timeout1\<close> the gateway answers the one call made
  for row \<open>r1\<close> with a timeout, and after the run the row is \<open>FAILED\<close> with the
  error \<open>timeout\<close>.
\<close>

theorem first_timeout_marks_row_failed:
  "gateway_calls (snd (snd run_timeout1)) = [''r1''] \<and>
   row_status (fst (snd run_timeout1)) ''r1'' = Some ROW_FAILED \<and>
   map r_error (recipients (fst (snd run_timeout1))) = [Some ''timeout'']"
  by code_simp

text \<open>
  Claim C1, amended: for every recipient row whose send attempt fails, whatever the
  reason (\<open>sendMessage\<close> does not tell a transient failure from a permanent one), the
  dispatcher marks the row \<open>FAILED\<close> in the run of that attempt; it calls the
  gateway at most once per row in a run, and a row so marked is not among the pending
  rows that a later run fetches.
\<close>

theorem failed_send_marks_row_failed_at_once:
  assumes "findUnique st (j_broadcastId job) = Some b"
    and "distinct (map r_id (recipients st))"
  shows "case handleSendBroadcast n g sc st job of (out, st', evs) \<Rightarrow>
           distinct (gateway_calls evs) \<and>
           (\<forall>rc \<in> set (findMany_pending st (j_broadcastId job)).
              r_id (fst rc) \<in> set (gateway_calls evs) \<and>
              \<not> success (sendMessage (g (r_id (fst rc))) (j_tenantId job) b (snd rc)) \<longrightarrow>
              row_status st' (r_id (fst rc)) = Some ROW_FAILED \<and>
              (\<forall>bid. r_id (fst rc) \<notin> set (map (\<lambda>rc. r_id (fst rc)) (findMany_pending st' bid))))"
proof (cases "b_status b = CANCELLED")
  case True
  then show ?thesis using assms(1) by (simp add: handle_cancelled)
next
  case False
  from top_rows[OF assms(1) False assms(2), of n g sc] obtain out st' evs where
    h: "handleSendBroadcast n g sc st job =
          (out, st', snd (serve (sc 0) st) @ [StatusWrite (started sc st job)] @ evs)"
    and l: "batch_loop n (job_ctx g sc job b (started sc st job)) 1 0 (sentCount b) (failedCount b)
              (started sc st job) = (out, st', evs)"
    by blast
  note r = top_recorded[OF assms(1) False assms(2) l]
  have d': "distinct (map r_id (recipients st'))" using r(3) assms(2) by simp
  have g: "gateway_calls (snd (serve (sc 0) st) @ [StatusWrite (started sc st job)] @ evs) = gateway_calls evs"
    by simp
  have "\<forall>rc \<in> set (findMany_pending st (j_broadcastId job)).
              r_id (fst rc) \<in> set (gateway_calls evs) \<and>
              \<not> success (sendMessage (g (r_id (fst rc))) (j_tenantId job) b (snd rc)) \<longrightarrow>
              row_status st' (r_id (fst rc)) = Some ROW_FAILED \<and>
              (\<forall>bid. r_id (fst rc) \<notin> set (map (\<lambda>rc. r_id (fst rc)) (findMany_pending st' bid)))"
  proof (intro ballI impI, elim conjE)
    fix rc assume rc: "rc \<in> set (findMany_pending st (j_broadcastId job))"
      and c: "r_id (fst rc) \<in> set (gateway_calls evs)"
      and f: "\<not> success (sendMessage (g (r_id (fst rc))) (j_tenantId job) b (snd rc))"
    have s: "row_status st' (r_id (fst rc)) = Some ROW_FAILED" using r(7) rc c f by simp
    moreover have "\<forall>bid. r_id (fst rc) \<notin> set (map (\<lambda>rc. r_id (fst rc)) (findMany_pending st' bid))"
      using not_pending_not_fetched[OF d' s] by simp
    ultimately show "row_status st' (r_id (fst rc)) = Some ROW_FAILED \<and>
              (\<forall>bid. r_id (fst rc) \<notin> set (map (\<lambda>rc. r_id (fst rc)) (findMany_pending st' bid)))"
      by simp
  qed
  then show ?thesis unfolding h prod.case g using r(6) by (intro conjI)
qed

theorem failed_send_marks_row_failed_at_once_witness:
  "findUnique ex1 (j_broadcastId ex_job) = Some (ex_broadcast 1 2 0 QUEUED) \<and>
   distinct (map r_id (recipients ex1)) \<and>
   ex_rc1 \<in> set (findMany_pending ex1 (j_broadcastId ex_job)) \<and>
   r_id (fst ex_rc1) \<in> set (gateway_calls (snd (snd (handleSendBroadcast 3 gw_timeout no_requests ex1 ex_job)))) \<and>
   \<not> success (sendMessage (gw_timeout (r_id (fst ex_rc1))) (j_tenantId ex_job)
        (ex_broadcast 1 2 0 QUEUED) (snd ex_rc1)) \<and>
   row_status (fst (snd (handleSendBroadcast 3 gw_timeout no_requests ex1 ex_job))) (r_id (fst ex_rc1))
     = Some ROW_FAILED"
proof -
  have f: "findUnique ex1 (j_broadcastId ex_job) = Some (ex_broadcast 1 2 0 QUEUED)" by code_simp
  have d: "distinct (map r_id (recipients ex1))" by code_simp
  have m: "ex_rc1 \<in> set (findMany_pending ex1 (j_broadcastId ex_job))" by code_simp
  have c: "r_id (fst ex_rc1) \<in> set (gateway_calls (snd (snd (handleSendBroadcast 3 gw_timeout no_requests ex1 ex_job))))"
    by code_simp
  have s: "\<not> success (sendMessage (gw_timeout (r_id (fst ex_rc1))) (j_tenantId ex_job)
        (ex_broadcast 1 2 0 QUEUED) (snd ex_rc1))" by code_simp
  from failed_send_marks_row_failed_at_once[OF f d, where n = 3 and g = gw_timeout and sc = no_requests]
  have "\<forall>rc \<in> set (findMany_pending ex1 (j_broadcastId ex_job)).
          r_id (fst rc) \<in> set (gateway_calls (snd (snd (handleSendBroadcast 3 gw_timeout no_requests ex1 ex_job)))) \<and>
          \<not> success (sendMessage (gw_timeout (r_id (fst rc))) (j_tenantId ex_job) (ex_broadcast 1 2 0 QUEUED) (snd rc)) \<longrightarrow>
          row_status (fst (snd (handleSendBroadcast 3 gw_timeout no_requests ex1 ex_job))) (r_id (fst rc)) = Some ROW_FAILED"
    by (simp add: split_def)
  from bspec[OF this m] c s
  have "row_status (fst (snd (handleSendBroadcast 3 gw_timeout no_requests ex1 ex_job))) (r_id (fst ex_rc1)) = Some ROW_FAILED"
    by blast
  then show ?thesis using f d m c s by blast
qed

subsection \<open>C2: the resolved recipients\<close>

text \<open>
  Claim C2: for every targeting rule the recipient-resolution function returns recipient
  identifiers without duplicates and without contacts that lack a phone number. The
  code breaks it on the targets that take no \<^verbatim>\<open>phone: { not: null }\<close> and no
  \<^verbatim>\<open>new Set\<close>: a \<open>CUSTOM\<close> list is returned as given, duplicates included, and a
  \<open>TAG\<close> target returns a tagged contact whose phone is null.
\<close>

theorem calculateRecipients_duplicates_and_missing_phone:
  "calculateRecipients ex_targets ''t1'' (dto_custom [''c1'', ''c1'']) = [''c1'', ''c1''] \<and>
   \<not> distinct (calculateRecipients ex_targets ''t1'' (dto_custom [''c1'', ''c1''])) \<and>
   calculateRecipients ex_targets ''t1'' (dto_tag [''vip'']) = [''c2''] \<and>
   map c_phone (filter (\<lambda>c. c_id c = ''c2'') (contacts ex_targets)) = [None]"
  by (simp add: calculateRecipients_def target_contacts_def dto_custom_def dto_tag_def ex_dto_def
        ex_targets_def ex_store_def ex_contact_def)

subsection \<open>C3: the row and the counter\<close>




subsection \<open>C4: conservation of the counters\<close>

text \<open>
  Claim C4 as stated fails. The claim: sentCount + failedCount + pendingCount equals
  totalRecipients at every point of a run. In the run \<open>run_timeout1\<close> the state
  committed by the write of row \<open>r1\<close> has the sum 0 and totalRecipients 1.
\<close>

theorem tally_short_of_total_mid_batch:
  "mid_timeout1 \<in> set (committed (snd (snd run_timeout1))) \<and>
   sent_of mid_timeout1 ''b1'' + failed_of mid_timeout1 ''b1'' + pendingCount mid_timeout1 ''b1'' = 0 \<and>
   total_of mid_timeout1 ''b1'' = 1"
  by code_simp

text \<open>
  Claim C4, amended: for a campaign whose counters agree with its rows when the run
  starts, at every committed state of the run totalRecipients is what it was,
  sentCount + failedCount is at most totalRecipients and
  sentCount + failedCount + pendingCount is at most totalRecipients; the sum equals
  totalRecipients after every write of the counters and of the status and in the state
  the run ends in; and the counters never decrease from one committed state to a later
  one.
\<close>

theorem counters_conserved_at_batch_boundaries:
  assumes b: "findUnique st (j_broadcastId job) = Some b"
    and d: "distinct (map r_id (recipients st))"
    and c: "sentCount b + failedCount b + pendingCount st (j_broadcastId job) = totalRecipients b"
  shows "case handleSendBroadcast n g sc st job of (out, st', evs) \<Rightarrow>
           (\<forall>x \<in> set (committed evs).
              total_of x (j_broadcastId job) = totalRecipients b \<and>
              sent_of x (j_broadcastId job) + failed_of x (j_broadcastId job) \<le> totalRecipients b \<and>
              tally x (j_broadcastId job) \<le> totalRecipients b) \<and>
           (\<forall>x \<in> set (boundaries evs). tally x (j_broadcastId job) = totalRecipients b) \<and>
           sorted_wrt (counters_le (j_broadcastId job)) (st # committed evs) \<and>
           total_of st' (j_broadcastId job) = totalRecipients b \<and>
           tally st' (j_broadcastId job) = totalRecipients b"
proof (cases "b_status b = CANCELLED")
  case True
  then show ?thesis using b top_counts(1,2)[OF b c] by (simp add: handle_cancelled)
next
  case False
  let ?bid = "j_broadcastId job"
  let ?T = "totalRecipients b"
  let ?st1 = "started sc st job"
  let ?cx = "job_ctx g sc job b ?st1"
  from top_rows[OF b False d, of n g sc] obtain out st' evs where
    h: "handleSendBroadcast n g sc st job =
          (out, st', snd (serve (sc 0) st) @ [StatusWrite ?st1] @ evs)"
    and l: "batch_loop n ?cx 1 0 (sentCount b) (failedCount b) ?st1 = (out, st', evs)"
    by blast
  note t1 = top_counts(5)[OF b c started_status_only, of sc]
  from loop_counts[OF initial_inv[OF b d, of g sc], of ?T n 1] l t1
  have ih: "\<forall>x \<in> set (committed evs). exists_b x ?bid \<and> total_of x ?bid = ?T \<and> tally x ?bid \<le> ?T \<and>
                 sentCount b \<le> sent_of x ?bid \<and> failedCount b \<le> failed_of x ?bid"
    "\<forall>x \<in> set (boundaries evs). tally x ?bid = ?T"
    "sorted_wrt (counters_le ?bid) (committed evs)"
    "total_of st' ?bid = ?T" "tally st' ?bid = ?T"
    unfolding counts_ok_def by simp_all
  let ?A = "st # committed (snd (serve (sc 0) st)) @ [?st1]"
  have eachA: "tally x ?bid = ?T \<and> total_of x ?bid = ?T \<and>
               sent_of x ?bid = sentCount b \<and> failed_of x ?bid = failedCount b"
    if "x \<in> set ?A" for x
  proof -
    from that have "status_only st x"
      using serve_committed[of x "sc 0" st] started_status_only[of st sc job] by auto
    then show ?thesis by (rule top_counts(5)[OF b c])
  qed
  have cm: "st # committed (snd (serve (sc 0) st) @ [StatusWrite ?st1] @ evs) = ?A @ committed evs"
    by simp
  have bd: "boundaries (snd (serve (sc 0) st) @ [StatusWrite ?st1] @ evs) = ?st1 # boundaries evs"
    by simp
  have le: "tally x ?bid \<le> ?T \<Longrightarrow> sent_of x ?bid + failed_of x ?bid \<le> ?T" for x
    using pendingCount_nonneg[of x ?bid] by (simp add: tally_def)
  have c1: "\<forall>x \<in> set (committed (snd (serve (sc 0) st) @ [StatusWrite ?st1] @ evs)).
              total_of x ?bid = ?T \<and> sent_of x ?bid + failed_of x ?bid \<le> ?T \<and> tally x ?bid \<le> ?T"
  proof
    fix x assume "x \<in> set (committed (snd (serve (sc 0) st) @ [StatusWrite ?st1] @ evs))"
    then have "x \<in> set ?A \<or> x \<in> set (committed evs)" by auto
    then have "total_of x ?bid = ?T \<and> tally x ?bid \<le> ?T"
      using eachA ih(1) by fastforce
    then show "total_of x ?bid = ?T \<and> sent_of x ?bid + failed_of x ?bid \<le> ?T \<and> tally x ?bid \<le> ?T"
      using le by simp
  qed
  have c2: "\<forall>x \<in> set (boundaries (snd (serve (sc 0) st) @ [StatusWrite ?st1] @ evs)). tally x ?bid = ?T"
    unfolding bd using ih(2) t1 by simp
  have sA: "sorted_wrt (counters_le ?bid) ?A"
    by (rule sorted_wrt_all) (use eachA in \<open>simp add: counters_le_def\<close>)
  have cross: "\<forall>x \<in> set ?A. \<forall>y \<in> set (committed evs). counters_le ?bid x y"
    using eachA ih(1) by (simp add: counters_le_def)
  have c3: "sorted_wrt (counters_le ?bid) (st # committed (snd (serve (sc 0) st) @ [StatusWrite ?st1] @ evs))"
    unfolding cm using sA ih(3) cross by (simp only: sorted_wrt_append)
  show ?thesis unfolding h prod.case using c1 c2 c3 ih(4,5) by (intro conjI)
qed

theorem counters_conserved_at_batch_boundaries_witness:
  "findUnique ex1 (j_broadcastId ex_job) = Some (ex_broadcast 1 2 0 QUEUED) \<and>
   distinct (map r_id (recipients ex1)) \<and>
   sentCount (ex_broadcast 1 2 0 QUEUED) + failedCount (ex_broadcast 1 2 0 QUEUED) +
     pendingCount ex1 (j_broadcastId ex_job) = totalRecipients (ex_broadcast 1 2 0 QUEUED) \<and>
   mid_timeout1 \<in> set (committed (snd (snd run_timeout1))) \<and>
   tally mid_timeout1 (j_broadcastId ex_job) \<le> totalRecipients (ex_broadcast 1 2 0 QUEUED) \<and>
   sorted_wrt (counters_le (j_broadcastId ex_job)) (ex1 # committed (snd (snd run_timeout1))) \<and>
   tally (fst (snd run_timeout1)) (j_broadcastId ex_job) = totalRecipients (ex_broadcast 1 2 0 QUEUED)"
proof -
  have f: "findUnique ex1 (j_broadcastId ex_job) = Some (ex_broadcast 1 2 0 QUEUED)" by code_simp
  have d: "distinct (map r_id (recipients ex1))" by code_simp
  have c: "sentCount (ex_broadcast 1 2 0 QUEUED) + failedCount (ex_broadcast 1 2 0 QUEUED) +
     pendingCount ex1 (j_broadcastId ex_job) = totalRecipients (ex_broadcast 1 2 0 QUEUED)" by code_simp
  have m: "mid_timeout1 \<in> set (committed (snd (snd run_timeout1)))" by code_simp
  from counters_conserved_at_batch_boundaries[OF f d c, where n = 3 and g = gw_timeout
      and sc = no_requests]
  have t: "\<forall>x \<in> set (committed (snd (snd run_timeout1))).
          total_of x (j_broadcastId ex_job) = totalRecipients (ex_broadcast 1 2 0 QUEUED) \<and>
          sent_of x (j_broadcastId ex_job) + failed_of x (j_broadcastId ex_job)
            \<le> totalRecipients (ex_broadcast 1 2 0 QUEUED) \<and>
          tally x (j_broadcastId ex_job) \<le> totalRecipients (ex_broadcast 1 2 0 QUEUED)"
    "sorted_wrt (counters_le (j_broadcastId ex_job)) (ex1 # committed (snd (snd run_timeout1)))"
    "tally (fst (snd run_timeout1)) (j_broadcastId ex_job) = totalRecipients (ex_broadcast 1 2 0 QUEUED)"
    by (simp_all add: split_def run_timeout1_def)
  have "tally mid_timeout1 (j_broadcastId ex_job) \<le> totalRecipients (ex_broadcast 1 2 0 QUEUED)"
    using bspec[OF t(1) m] by blast
  then show ?thesis using f d c m t(2,3) by blast
qed

subsection \<open>C5: pause and cancel\<close>

text \<open>
  Claim C5: in every run a pause or cancel request is observed at the start of each
  batch iteration; once it is observed no further batch is claimed, and the rows of a
  batch already claimed are carried to completion with their outcomes recorded. The
  code breaks the first part. The job reads the broadcast once, skips the run when its
  status is \<open>CANCELLED\<close> (under the comment \<^verbatim>\<open>// Check if cancelled or paused\<close>),
  and then writes \<open>SENDING\<close> whatever the status is by then. So a cancel that the
  control API accepts between that read and that write is overwritten: the campaign
  goes from \<open>CANCELLED\<close> to \<open>SENDING\<close>, every status read of the run returns
  \<open>SENDING\<close>, all five rows are sent and the campaign ends \<open>COMPLETED\<close>. The same happens to a campaign that is \<open>PAUSED\<close> when the job
  starts, while one that is \<open>CANCELLED\<close> by then is skipped.
\<close>

theorem accepted_cancel_or_pause_not_observed:
  "fst (control Cancel ex5 ''t1'' ''b1'') = Inr () \<and>
   map_option b_status (findUnique (snd (control Cancel ex5 ''t1'' ''b1'')) ''b1'') = Some CANCELLED \<and>
   fst run_cancelled_early = Returned (Finished 5 0) \<and>
   status_trace ''b1'' (snd (snd run_cancelled_early)) =
     [Some CANCELLED, Some SENDING, Some COMPLETED] \<and>
   status_reads (snd (snd run_cancelled_early)) = [Some SENDING, Some SENDING, Some SENDING] \<and>
   gateway_calls (snd (snd run_cancelled_early)) = [''r1'', ''r2'', ''r3'', ''r4'', ''r5''] \<and>
   map_option b_status (findUnique (fst (snd run_cancelled_early)) ''b1'') = Some COMPLETED \<and>
   map_option b_status (findUnique ex5_paused ''b1'') = Some PAUSED \<and>
   fst run_on_paused = Returned (Finished 5 0) \<and>
   status_trace ''b1'' (snd (snd run_on_paused)) = [Some SENDING, Some COMPLETED] \<and>
   status_reads (snd (snd run_on_paused)) = [Some SENDING, Some SENDING, Some SENDING] \<and>
   gateway_calls (snd (snd run_on_paused)) = [''r1'', ''r2'', ''r3'', ''r4'', ''r5''] \<and>
   map_option b_status (findUnique (fst (snd run_on_paused)) ''b1'') = Some COMPLETED \<and>
   fst run_on_cancelled = Returned (Skipped ''cancelled'') \<and>
   gateway_calls (snd (snd run_on_cancelled)) = []"
  by code_simp

subsection \<open>C6: five recipients in batches of two\<close>

text \<open>
  Claim C6: a campaign with 5 recipients, batch size 2 and delay 0, and a gateway every
  call of which succeeds: the run, observed for four iterations or more, sends three
  batches of 2, 2 and 1 rows and ends with the status \<open>COMPLETED\<close>, sentCount 5 and
  failedCount 0.
\<close>

theorem scenario_five_recipients_batches_of_two:
  assumes "\<And>rid rq. \<exists>mid. g rid rq = WaReturned mid"
  shows "case handleSendBroadcast (4 + n) g no_requests ex5 ex_job of
     (out, st, evs) \<Rightarrow>
       out = Returned (Finished 5 0) \<and>
       batch_sizes 0 evs = [2, 2, 1] \<and>
       gateway_calls evs = [''r1'', ''r2'', ''r3'', ''r4'', ''r5''] \<and>
       map b_status (broadcasts st) = [COMPLETED] \<and>
       map sentCount (broadcasts st) = [5] \<and>
       map failedCount (broadcasts st) = [0] \<and>
       map r_status (recipients st) = [SENT, SENT, SENT, SENT, SENT]"
proof -
  from assms have "\<forall>rid. \<exists>f. \<forall>rq. g rid rq = WaReturned (f rq)"
    by (intro allI choice) simp
  then obtain m where "\<forall>rid rq. g rid rq = WaReturned (m rid rq)"
    using choice by metis
  then have g: "g = (\<lambda>rid rq. WaReturned (m rid rq))" by (intro ext) simp
  have n: "4 + n = Suc (Suc (Suc (Suc n)))" by simp
  show ?thesis unfolding g n by (rule scenario_five_evaluated)
qed

theorem scenario_five_recipients_batches_of_two_witness:
  "(\<forall>rid rq. \<exists>mid. gw_ok rid rq = WaReturned mid) \<and>
   fst (handleSendBroadcast (4 + 0) gw_ok no_requests ex5 ex_job) = Returned (Finished 5 0) \<and>
   batch_sizes 0 (snd (snd (handleSendBroadcast (4 + 0) gw_ok no_requests ex5 ex_job))) = [2, 2, 1]"
proof -
  have h: "\<exists>mid. gw_ok rid rq = WaReturned mid" for rid rq
    by (simp add: gw_ok_def)
  from scenario_five_recipients_batches_of_two[of gw_ok 0, OF h]
  have "fst (handleSendBroadcast (4 + 0) gw_ok no_requests ex5 ex_job) = Returned (Finished 5 0) \<and>
   batch_sizes 0 (snd (snd (handleSendBroadcast (4 + 0) gw_ok no_requests ex5 ex_job))) = [2, 2, 1]"
    by (simp add: split_def)
  then show ?thesis using h by blast
qed

subsection \<open>C7: transitions that are not permitted\<close>

text \<open>
  Claim C7: a request of the control API (send now, pause, resume, cancel) for a
  campaign whose state does not permit it is rejected with a validation error
  (\<open>BadRequestException\<close>) and leaves the store, the queue included, as it was.
\<close>

theorem invalid_transition_rejected:
  assumes "findFirst st bid tenant = Some b" and "\<not> permitted rq (b_status b)"
  shows "control rq st tenant bid = (Inl (BadRequestException (rejection rq)), st)"
  using assms by (cases rq) (auto simp: send_def pause_def resume_def cancel_def rejection_def)

theorem invalid_transition_rejected_witness:
  "findFirst ex_draft ''b1'' ''t1'' = Some (ex_broadcast 1 2 0 DRAFT) \<and>
   \<not> permitted Pause (b_status (ex_broadcast 1 2 0 DRAFT)) \<and>
   control Pause ex_draft ''t1'' ''b1'' = (Inl (BadRequestException (rejection Pause)), ex_draft)"
proof -
  have f: "findFirst ex_draft ''b1'' ''t1'' = Some (ex_broadcast 1 2 0 DRAFT)"
    by (simp add: findFirst_def ex_draft_def ex_store_def ex_broadcast_def new_broadcast_def)
  have p: "\<not> permitted Pause (b_status (ex_broadcast 1 2 0 DRAFT))"
    by (simp add: ex_broadcast_def)
  show ?thesis using f p invalid_transition_rejected[OF f p] by simp
qed

subsection \<open>C8: no recipients\<close>

text \<open>
  Claim C8: when the targeting rule resolves to no recipient, \<open>create\<close> is rejected with
  a validation error and the store is as it was: no campaign and no recipient row is
  created.
\<close>

theorem create_rejects_empty_recipients:
  assumes "calculateRecipients st tenant dto = []"
  shows "create thisMonth now newId st tenant dto =
           (Inl (BadRequestException ''no recipients match the targeting rule''), st)"
  using assms by (simp add: create_def)

theorem create_rejects_empty_recipients_witness:
  "calculateRecipients ex_empty ''t1'' (ex_dto TARGET_ALL) = [] \<and>
   create 0 0 ex_newId ex_empty ''t1'' (ex_dto TARGET_ALL) =
     (Inl (BadRequestException ''no recipients match the targeting rule''), ex_empty)"
proof -
  have e: "calculateRecipients ex_empty ''t1'' (ex_dto TARGET_ALL) = []"
    by (simp add: calculateRecipients_def target_contacts_def ex_empty_def ex_store_def ex_dto_def)
  show ?thesis using e create_rejects_empty_recipients[OF e] by simp
qed

subsection \<open>C9: the order of processing\<close>




subsection \<open>C10: the monthly limit of the plan\<close>

text \<open>
  Claim C10: for a tenant with a plan and a targeting rule that resolves to some
  recipients, \<open>create\<close> is rejected with a validation error, the store unchanged, when
  the limit of the plan is not -1 and the recipient rows of the tenant created since the
  start of the month plus the new recipients exceed it; with the limit -1 the campaign is
  created.
\<close>

theorem create_checks_monthly_limit:
  assumes "find (\<lambda>t. t_id t = tenant) (tenants st) = Some t" and "t_plan t = Some plan"
    and "calculateRecipients st tenant dto \<noteq> []"
  shows "(broadcastsLimit plan \<noteq> - 1 \<and>
          monthlyCount st tenant thisMonth + int (length (calculateRecipients st tenant dto))
            > broadcastsLimit plan \<longrightarrow>
          create thisMonth now newId st tenant dto =
            (Inl (BadRequestException ''monthly broadcast limit exceeded''), st)) \<and>
         (broadcastsLimit plan = - 1 \<longrightarrow>
          fst (create thisMonth now newId st tenant dto) =
            Inr (new_broadcast (newId 0) tenant dto
                   (int (length (calculateRecipients st tenant dto)))))"
  using assms by (auto simp: create_def Let_def split: option.splits)

theorem create_checks_monthly_limit_witness:
  "find (\<lambda>t. t_id t = ''t1'') (tenants ex_targets) = Some ex_tenant1 \<and>
   t_plan ex_tenant1 = Some \<lparr> broadcastsLimit = 2 \<rparr> \<and>
   calculateRecipients ex_targets ''t1'' (dto_custom [''c1'', ''c1'', ''c2'']) \<noteq> [] \<and>
   broadcastsLimit \<lparr> broadcastsLimit = 2 \<rparr> \<noteq> - 1 \<and>
   monthlyCount ex_targets ''t1'' 0 +
     int (length (calculateRecipients ex_targets ''t1'' (dto_custom [''c1'', ''c1'', ''c2''])))
     > broadcastsLimit \<lparr> broadcastsLimit = 2 \<rparr> \<and>
   create 0 0 ex_newId ex_targets ''t1'' (dto_custom [''c1'', ''c1'', ''c2'']) =
     (Inl (BadRequestException ''monthly broadcast limit exceeded''), ex_targets) \<and>
   find (\<lambda>t. t_id t = ''t2'') (tenants ex_targets) = Some ex_tenant2 \<and>
   t_plan ex_tenant2 = Some \<lparr> broadcastsLimit = - 1 \<rparr> \<and>
   calculateRecipients ex_targets ''t2'' (dto_custom [''c1'', ''c1'', ''c2'']) \<noteq> [] \<and>
   fst (create 0 0 ex_newId ex_targets ''t2'' (dto_custom [''c1'', ''c1'', ''c2''])) =
     Inr (new_broadcast (ex_newId 0) ''t2'' (dto_custom [''c1'', ''c1'', ''c2''])
            (int (length (calculateRecipients ex_targets ''t2'' (dto_custom [''c1'', ''c1'', ''c2''])))))"
proof -
  have t1: "find (\<lambda>t. t_id t = ''t1'') (tenants ex_targets) = Some ex_tenant1"
    by (simp add: ex_targets_def ex_store_def ex_tenant1_def)
  have p1: "t_plan ex_tenant1 = Some \<lparr> broadcastsLimit = 2 \<rparr>"
    by (simp add: ex_tenant1_def)
  have t2: "find (\<lambda>t. t_id t = ''t2'') (tenants ex_targets) = Some ex_tenant2"
    by (simp add: ex_targets_def ex_store_def ex_tenant1_def ex_tenant2_def)
  have p2: "t_plan ex_tenant2 = Some \<lparr> broadcastsLimit = - 1 \<rparr>"
    by (simp add: ex_tenant2_def)
  have m: "monthlyCount ex_targets ''t1'' 0 = 0"
    by (simp add: monthlyCount_def ex_targets_def ex_store_def)
  have n1: "calculateRecipients ex_targets ''t1'' (dto_custom [''c1'', ''c1'', ''c2'']) \<noteq> []"
    and n2: "calculateRecipients ex_targets ''t2'' (dto_custom [''c1'', ''c1'', ''c2'']) \<noteq> []"
    by (simp_all add: ex_targets_custom)
  have over: "broadcastsLimit \<lparr> broadcastsLimit = 2 \<rparr> \<noteq> - 1 \<and>
      monthlyCount ex_targets ''t1'' 0 +
        int (length (calculateRecipients ex_targets ''t1'' (dto_custom [''c1'', ''c1'', ''c2''])))
        > broadcastsLimit \<lparr> broadcastsLimit = 2 \<rparr>"
    using m by (simp add: ex_targets_custom)
  from create_checks_monthly_limit[OF t1 p1 n1, where thisMonth = 0 and now = 0 and newId = ex_newId]
    over
  have r1: "create 0 0 ex_newId ex_targets ''t1'' (dto_custom [''c1'', ''c1'', ''c2'']) =
     (Inl (BadRequestException ''monthly broadcast limit exceeded''), ex_targets)"
    by blast
  from create_checks_monthly_limit[OF t2 p2 n2, where thisMonth = 0 and now = 0 and newId = ex_newId]
  have r2: "fst (create 0 0 ex_newId ex_targets ''t2'' (dto_custom [''c1'', ''c1'', ''c2''])) =
     Inr (new_broadcast (ex_newId 0) ''t2'' (dto_custom [''c1'', ''c1'', ''c2''])
            (int (length (calculateRecipients ex_targets ''t2'' (dto_custom [''c1'', ''c1'', ''c2''])))))"
    by simp
  show ?thesis using t1 p1 n1 over r1 t2 p2 n2 r2 by blast
qed

end
